theory Spec2Isabelle
  imports Main "HOL-Library.AList"
begin

section \<open>Python values and the standard-library functions the tasks call\<close>

text \<open>
  \<^verbatim>\<open>InputType = Union[str, Tuple[str, str]]\<close>: a work item is a bare string (a URI or a
  path) or a pair (URI, directory).
\<close>

datatype input = Str string | Pair string string

text \<open>The exceptions that the modelled code paths can raise.\<close>

datatype error =
    IndexError | NameError | TypeError | ValueError | AttributeError
  | InterruptedError | FileNotFoundError

text \<open>What a method hands back: a Python \<^verbatim>\<open>bool\<close>, or \<^verbatim>\<open>None\<close> when the body ends
  without a \<^verbatim>\<open>return\<close>.\<close>

datatype retval = RBool bool | RNone

text \<open>
  Indexing as \<^verbatim>\<open>rename_download\<close> uses it. \<^verbatim>\<open>file[i]\<close> on a pair gives a component, on
  a string the one-character string at that position, and raises \<^verbatim>\<open>IndexError\<close> out of
  range; \<^verbatim>\<open>xs[i]\<close> on a list counts a negative index from the end.
\<close>

definition list_getitem :: "'a list \<Rightarrow> int \<Rightarrow> error + 'a" where
  "list_getitem xs i =
     (if 0 \<le> i \<and> i < int (length xs) then Inr (xs ! nat i)
      else if i < 0 \<and> - int (length xs) \<le> i then Inr (xs ! nat (int (length xs) + i))
      else Inl IndexError)"

fun input_getitem :: "input \<Rightarrow> int \<Rightarrow> error + string" where
  "input_getitem (Pair a b) i = list_getitem [a, b] i"
| "input_getitem (Str s) i = list_getitem (map (\<lambda>c. [c]) s) i"

text \<open>\<^verbatim>\<open>s.split(sep)\<close> for a one-character separator: one more piece than separators.\<close>

fun str_split :: "char \<Rightarrow> string \<Rightarrow> string list" where
  "str_split sep [] = [[]]"
| "str_split sep (c # cs) =
     (if c = sep then [] # str_split sep cs
      else (case str_split sep cs of
              [] \<Rightarrow> [[c]]
            | w # ws \<Rightarrow> (c # w) # ws))"

definition startswith :: "string \<Rightarrow> string \<Rightarrow> bool" where
  "startswith s p = (take (length p) s = p)"

text \<open>\<^verbatim>\<open>sub in s\<close> on strings.\<close>

fun str_contains :: "string \<Rightarrow> string \<Rightarrow> bool" where
  "str_contains sub [] = (sub = [])"
| "str_contains sub (c # cs) = (startswith (c # cs) sub \<or> str_contains sub cs)"

text \<open>
  \<^verbatim>\<open>s.replace(old, new)\<close>: every occurrence of \<^verbatim>\<open>old\<close>, found from the left and not
  overlapping, becomes \<^verbatim>\<open>new\<close>. With an empty \<^verbatim>\<open>old\<close> Python puts \<^verbatim>\<open>new\<close> before every
  character and at the end.
\<close>

function replace_nonempty :: "string \<Rightarrow> string \<Rightarrow> string \<Rightarrow> string" where
  "replace_nonempty [] old new = []"
| "replace_nonempty (c # cs) old new =
     (if old \<noteq> [] \<and> startswith (c # cs) old
      then new @ replace_nonempty (drop (length old) (c # cs)) old new
      else c # replace_nonempty cs old new)"
  by pat_completeness auto
termination
  by (relation "measure (\<lambda>(s, old, new). length s)") auto

definition str_replace :: "string \<Rightarrow> string \<Rightarrow> string \<Rightarrow> string" where
  "str_replace s old new =
     (if old = [] then new @ concat (map (\<lambda>c. c # new) s) else replace_nonempty s old new)"

text \<open>
  \<^verbatim>\<open>os.path.join(a, b)\<close> (POSIX): an absolute \<^verbatim>\<open>b\<close> wins; otherwise \<^verbatim>\<open>b\<close> is appended,
  after a slash unless \<^verbatim>\<open>a\<close> is empty or already ends in one.
\<close>

definition os_path_join :: "string \<Rightarrow> string \<Rightarrow> string" where
  "os_path_join a b =
     (if startswith b ''/'' then b
      else if a = [] \<or> last a = CHR ''/'' then a @ b
      else a @ ''/'' @ b)"

text \<open>
  \<^verbatim>\<open>os.path.splitext(p)\<close> (POSIX): the extension starts at the last dot, provided that
  dot comes after the last slash and some character between that slash and the dot is
  not itself a dot; otherwise the extension is empty.
\<close>

fun rfind_from :: "char \<Rightarrow> string \<Rightarrow> int \<Rightarrow> int \<Rightarrow> int" where
  "rfind_from c [] i best = best"
| "rfind_from c (x # xs) i best = rfind_from c xs (i + 1) (if x = c then i else best)"

definition rfind :: "string \<Rightarrow> char \<Rightarrow> int" where
  "rfind s c = rfind_from c s 0 (- 1)"

definition os_path_splitext :: "string \<Rightarrow> string \<times> string" where
  "os_path_splitext p =
     (let sepIndex = rfind p CHR ''/'';
          dotIndex = rfind p CHR ''.''
      in if dotIndex > sepIndex \<and>
            filter (\<lambda>c. c \<noteq> CHR ''.'')
              (take (nat (dotIndex - (sepIndex + 1))) (drop (nat (sepIndex + 1)) p)) \<noteq> []
         then (take (nat dotIndex) p, drop (nat dotIndex) p)
         else (p, []))"

section \<open>The download task's naming function\<close>

text \<open>
  \<^verbatim>\<open>DownloadIIIFImageTask.rename_download\<close>:
  \<^verbatim>\<open>os.path.join(file[1], file[0].split("/")[-5] + ".jpg")\<close>. The arguments are evaluated
  from the left, and each lookup can raise.
\<close>

definition rename_download :: "input \<Rightarrow> error + string" where
  "rename_download file =
     (case input_getitem file 1 of
        Inl e \<Rightarrow> Inl e
      | Inr directory \<Rightarrow>
          (case input_getitem file 0 of
             Inl e \<Rightarrow> Inl e
           | Inr uri \<Rightarrow>
               (case list_getitem (str_split CHR ''/'' uri) (- 5) of
                  Inl e \<Rightarrow> Inl e
                | Inr segment \<Rightarrow> Inr (os_path_join directory (segment @ ''.jpg'')))))"

section \<open>The filesystem, the outside world and the external collaborators\<close>

text \<open>
  The filesystem is the ledger of the pipeline: a map from a path to the content of the
  file stored there. Besides files, the world holds what was printed on standard output,
  the command lines handed to the shell, and the items on which an executor has called a
  work function, each in order.
\<close>

type_synonym fs = "string \<rightharpoonup> string"

record world =
  files :: fs
  stdout :: "string list"
  spawned :: "string list"
  worked :: "input list"

definition os_path_exists :: "fs \<Rightarrow> string \<Rightarrow> bool" where
  "os_path_exists fs p = (fs p \<noteq> None)"

definition os_remove :: "fs \<Rightarrow> string \<Rightarrow> error + fs" where
  "os_remove fs p = (if fs p = None then Inl FileNotFoundError else Inr (fs(p := None)))"

definition print :: "string \<Rightarrow> world \<Rightarrow> world" where
  "print msg w = w\<lparr>stdout := stdout w @ [msg]\<rparr>"

text \<open>
  The module \<^verbatim>\<open>rtk.utils\<close>, the \<^verbatim>\<open>csv\<close> reader and the spawned programs are not part of
  \<^verbatim>\<open>task.py\<close>; they are parameters of the model. Each is a function of the filesystem
  it reads, and returns the filesystem it leaves where it writes:
  \<^item> \<open>download\<close>: \<^verbatim>\<open>utils.download((url, target))\<close>, whose result is kept when truthy;
  \<^item> \<open>popen\<close>: \<^verbatim>\<open>subprocess.Popen(cmd, shell=True)\<close> followed by \<^verbatim>\<open>wait()\<close>: the exit
    code and the captured standard output and standard error;
  \<^item> \<open>interrupt\<close>: \<^verbatim>\<open>Some k\<close> when a \<^verbatim>\<open>KeyboardInterrupt\<close> reaches the download loop
    after \<open>k\<close> results have been collected, and \<open>in_flight\<close>: what the downloads that
    were running at that moment leave on disk;
  \<^item> \<open>overrun\<close>: how many of the items behind a failing one the pool has still run
    when the exception of the failing item reaches the caller, and how many downloads are
    running when an interrupt arrives. \<^verbatim>\<open>Executor.map\<close> hands every item to the pool at
    once, so this number depends on the scheduling.
\<close>

record env =
  download :: "string \<times> string \<Rightarrow> fs \<Rightarrow> input option \<times> fs"
  download_iiif_manifest :: "input \<times> string \<Rightarrow> fs \<Rightarrow> fs"
  check_content :: "fs \<Rightarrow> string \<Rightarrow> bool"
  check_kraken_filename :: "fs \<Rightarrow> string \<Rightarrow> bool"
  clean_kraken_filename :: "input \<Rightarrow> fs \<Rightarrow> fs"
  alto_zone_extraction :: "fs \<Rightarrow> input \<Rightarrow> string list \<Rightarrow> string option"
  string_to_hash :: "input \<Rightarrow> string"
  change_ext :: "string \<Rightarrow> string \<Rightarrow> string"
  popen :: "string \<Rightarrow> fs \<Rightarrow> (int \<times> string \<times> string) \<times> fs"
  csv_reader :: "string \<Rightarrow> string list list"
  interrupt :: "nat option"
  in_flight :: "fs \<Rightarrow> fs"
  overrun :: nat

section \<open>Tasks\<close>

text \<open>
  The six subclasses of \<^verbatim>\<open>Task\<close>, each with the options its constructor stores:
  the download task its \<^verbatim>\<open>downstream_check\<close>; the manifest task its \<^verbatim>\<open>naming_function\<close>
  and \<^verbatim>\<open>output_directory\<close>; the command task \<^verbatim>\<open>output_format\<close>, \<^verbatim>\<open>desc\<close>,
  \<^verbatim>\<open>allow_failure\<close> and \<^verbatim>\<open>check_content\<close>; the extraction task its \<^verbatim>\<open>zones\<close>.
\<close>

datatype variant =
    DownloadIIIFImageTask "(fs \<Rightarrow> input \<Rightarrow> bool) option"
  | DownloadIIIFManifestTask "input \<Rightarrow> string" string
  | KrakenLikeCommand string string bool bool
  | KrakenAltoCleanUpCommand
  | ClearFileCommand
  | ExtractZoneAltoCommand "string list"

text \<open>
  The fields of a task object. \<^verbatim>\<open>_checked_files\<close> is a dictionary: an association list
  in insertion order, written with \<^const>\<open>AList.update\<close>, which overwrites a key in place
  and appends a new one. \<^verbatim>\<open>_output_files\<close> exists in the download and command tasks.
\<close>

record task =
  input_files :: "input list"
  command :: "string option"
  priv_checked_files :: "(input \<times> bool) list"
  workers :: int
  priv_output_files :: "input list"
  kind :: variant

text \<open>\<^verbatim>\<open>Task.__init__\<close>; \<^verbatim>\<open>multiprocess or 1\<close> turns \<^verbatim>\<open>None\<close> and \<^verbatim>\<open>0\<close> into one worker.\<close>

definition Task_init :: "input list \<Rightarrow> string option \<Rightarrow> int option \<Rightarrow> variant \<Rightarrow> task" where
  "Task_init inputs cmd multiprocess k =
     \<lparr>input_files = inputs, command = cmd, priv_checked_files = [],
      workers = (case multiprocess of None \<Rightarrow> 1 | Some n \<Rightarrow> if n = 0 then 1 else n),
      priv_output_files = [], kind = k\<rparr>"


definition DownloadIIIFManifestTask_init ::
  "env \<Rightarrow> input list \<Rightarrow> string option \<Rightarrow> int option \<Rightarrow> (input \<Rightarrow> string) option \<Rightarrow>
   string option \<Rightarrow> task" where
  "DownloadIIIFManifestTask_init E inputs cmd multiprocess naming_function output_directory =
     Task_init inputs cmd multiprocess
       (DownloadIIIFManifestTask
          (case naming_function of None \<Rightarrow> string_to_hash E | Some f \<Rightarrow> f)
          (case output_directory of None \<Rightarrow> ''.'' | Some d \<Rightarrow> if d = [] then ''.'' else d))"

text \<open>
  \<^verbatim>\<open>KrakenLikeCommand.__init__\<close>: after the fields are stored, the template is tested for
  \<^verbatim>\<open>$out\<close>. On a missing template (\<^verbatim>\<open>command=None\<close>) the test itself raises \<^verbatim>\<open>TypeError\<close>.
\<close>

definition KrakenLikeCommand_init ::
  "input list \<Rightarrow> string option \<Rightarrow> int option \<Rightarrow> string \<Rightarrow> string \<Rightarrow> bool \<Rightarrow> bool \<Rightarrow> error + task" where
  "KrakenLikeCommand_init inputs cmd multiprocess output_format desc allow_failure chk =
     (case cmd of
        None \<Rightarrow> Inl TypeError
      | Some c \<Rightarrow>
          if \<not> str_contains ''$out'' c then Inl NameError
          else Inr (Task_init inputs cmd multiprocess
                      (KrakenLikeCommand output_format desc allow_failure chk)))"

subsection \<open>Naming of outputs\<close>

definition Manifest_rename_download :: "env \<Rightarrow> (input \<Rightarrow> string) \<Rightarrow> string \<Rightarrow> input \<Rightarrow> string" where
  "Manifest_rename_download E naming_function output_directory file =
     os_path_join output_directory (change_ext E (naming_function file) ''csv'')"

text \<open>\<^verbatim>\<open>KrakenLikeCommand.rename\<close>; \<^verbatim>\<open>os.path.splitext\<close> refuses a tuple.\<close>

definition Kraken_rename :: "string \<Rightarrow> input \<Rightarrow> error + string" where
  "Kraken_rename output_format inp =
     (case inp of
        Pair a b \<Rightarrow> Inl TypeError
      | Str p \<Rightarrow> Inr (fst (os_path_splitext p) @ ''.'' @ output_format))"

definition Extract_rename :: "input \<Rightarrow> error + string" where
  "Extract_rename inp =
     (case inp of
        Pair a b \<Rightarrow> Inl TypeError
      | Str p \<Rightarrow> Inr (fst (os_path_splitext p) @ ''.txt''))"

subsection \<open>check\<close>

text \<open>
  Every \<^verbatim>\<open>check\<close> walks \<^verbatim>\<open>input_files\<close> with the flag \<^verbatim>\<open>all_done\<close> and writes one entry of
  \<^verbatim>\<open>_checked_files\<close> per input. It only reads the filesystem. When a lookup raises, the
  entries written so far stay in the object.
\<close>

fun Image_check_loop ::
  "(fs \<Rightarrow> input \<Rightarrow> bool) option \<Rightarrow> fs \<Rightarrow> input list \<Rightarrow> bool \<Rightarrow> task \<Rightarrow> (error + bool) \<times> task" where
  "Image_check_loop dc fs [] all_done t = (Inr all_done, t)"
| "Image_check_loop dc fs (file # rest) all_done t =
     (case rename_download file of
        Inl e \<Rightarrow> (Inl e, t)
      | Inr out_file \<Rightarrow>
          if os_path_exists fs out_file then
            Image_check_loop dc fs rest all_done
              (t\<lparr>priv_checked_files := AList.update file True (priv_checked_files t),
                 priv_output_files := priv_output_files t @ [file]\<rparr>)
          else
            (case dc of
               Some downstream_check \<Rightarrow>
                 Image_check_loop dc fs rest (all_done \<and> downstream_check fs file)
                   (t\<lparr>priv_checked_files :=
                        AList.update file (downstream_check fs file) (priv_checked_files t)\<rparr>)
             | None \<Rightarrow>
                 Image_check_loop dc fs rest False
                   (t\<lparr>priv_checked_files := AList.update file False (priv_checked_files t)\<rparr>)))"

fun Manifest_check_loop ::
  "env \<Rightarrow> (input \<Rightarrow> string) \<Rightarrow> string \<Rightarrow> fs \<Rightarrow> input list \<Rightarrow> bool \<Rightarrow> task \<Rightarrow> (error + bool) \<times> task" where
  "Manifest_check_loop E nf od fs [] all_done t = (Inr all_done, t)"
| "Manifest_check_loop E nf od fs (file # rest) all_done t =
     (if os_path_exists fs (Manifest_rename_download E nf od file) then
        Manifest_check_loop E nf od fs rest all_done
          (t\<lparr>priv_checked_files := AList.update file True (priv_checked_files t)\<rparr>)
      else
        Manifest_check_loop E nf od fs rest False
          (t\<lparr>priv_checked_files := AList.update file False (priv_checked_files t)\<rparr>))"

fun Kraken_check_loop ::
  "env \<Rightarrow> string \<Rightarrow> bool \<Rightarrow> fs \<Rightarrow> input list \<Rightarrow> bool \<Rightarrow> task \<Rightarrow> (error + bool) \<times> task" where
  "Kraken_check_loop E fmt chk fs [] all_done t = (Inr all_done, t)"
| "Kraken_check_loop E fmt chk fs (inp # rest) all_done t =
     (case Kraken_rename fmt inp of
        Inl e \<Rightarrow> (Inl e, t)
      | Inr out \<Rightarrow>
          if os_path_exists fs out then
            Kraken_check_loop E fmt chk fs rest all_done
              (t\<lparr>priv_checked_files :=
                   AList.update inp (if chk then check_content E fs out else True)
                     (priv_checked_files t)\<rparr>)
          else
            Kraken_check_loop E fmt chk fs rest False
              (t\<lparr>priv_checked_files := AList.update inp False (priv_checked_files t)\<rparr>))"

text \<open>After its loop the command task extends \<^verbatim>\<open>_output_files\<close> by every key whose entry is
  true.\<close>

definition Kraken_check :: "env \<Rightarrow> string \<Rightarrow> bool \<Rightarrow> fs \<Rightarrow> task \<Rightarrow> (error + bool) \<times> task" where
  "Kraken_check E fmt chk fs t =
     (case Kraken_check_loop E fmt chk fs (input_files t) True t of
        (Inl e, t') \<Rightarrow> (Inl e, t')
      | (Inr all_done, t') \<Rightarrow>
          (Inr all_done,
           t'\<lparr>priv_output_files :=
                priv_output_files t' @ [inp. (inp, status) \<leftarrow> priv_checked_files t', status]\<rparr>))"

fun CleanUp_check_loop :: "env \<Rightarrow> fs \<Rightarrow> input list \<Rightarrow> bool \<Rightarrow> task \<Rightarrow> (error + bool) \<times> task" where
  "CleanUp_check_loop E fs [] all_done t = (Inr all_done, t)"
| "CleanUp_check_loop E fs (inp # rest) all_done t =
     (case inp of
        Pair a b \<Rightarrow> (Inl TypeError, t)
      | Str p \<Rightarrow>
          if os_path_exists fs p then
            CleanUp_check_loop E fs rest all_done
              (t\<lparr>priv_checked_files :=
                   AList.update inp (check_kraken_filename E fs p) (priv_checked_files t)\<rparr>)
          else
            CleanUp_check_loop E fs rest False
              (t\<lparr>priv_checked_files := AList.update inp False (priv_checked_files t)\<rparr>))"

fun Clear_check_loop :: "fs \<Rightarrow> input list \<Rightarrow> bool \<Rightarrow> task \<Rightarrow> (error + bool) \<times> task" where
  "Clear_check_loop fs [] all_done t = (Inr all_done, t)"
| "Clear_check_loop fs (file # rest) all_done t =
     (case file of
        Pair a b \<Rightarrow> (Inl TypeError, t)
      | Str p \<Rightarrow>
          if \<not> os_path_exists fs p then
            Clear_check_loop fs rest all_done
              (t\<lparr>priv_checked_files := AList.update file True (priv_checked_files t)\<rparr>)
          else
            Clear_check_loop fs rest False
              (t\<lparr>priv_checked_files := AList.update file False (priv_checked_files t)\<rparr>))"

fun Extract_check_loop :: "fs \<Rightarrow> input list \<Rightarrow> bool \<Rightarrow> task \<Rightarrow> (error + bool) \<times> task" where
  "Extract_check_loop fs [] all_done t = (Inr all_done, t)"
| "Extract_check_loop fs (file # rest) all_done t =
     (case Extract_rename file of
        Inl e \<Rightarrow> (Inl e, t)
      | Inr out \<Rightarrow>
          if os_path_exists fs out then
            Extract_check_loop fs rest all_done
              (t\<lparr>priv_checked_files := AList.update file True (priv_checked_files t)\<rparr>)
          else
            Extract_check_loop fs rest False
              (t\<lparr>priv_checked_files := AList.update file False (priv_checked_files t)\<rparr>))"

definition check :: "env \<Rightarrow> task \<Rightarrow> world \<Rightarrow> (error + bool) \<times> task" where
  "check E t w =
     (case kind t of
        DownloadIIIFImageTask dc \<Rightarrow> Image_check_loop dc (files w) (input_files t) True t
      | DownloadIIIFManifestTask nf od \<Rightarrow>
          Manifest_check_loop E nf od (files w) (input_files t) True t
      | KrakenLikeCommand fmt desc allow chk \<Rightarrow> Kraken_check E fmt chk (files w) t
      | KrakenAltoCleanUpCommand \<Rightarrow> CleanUp_check_loop E (files w) (input_files t) True t
      | ClearFileCommand \<Rightarrow> Clear_check_loop (files w) (input_files t) True t
      | ExtractZoneAltoCommand zones \<Rightarrow> Extract_check_loop (files w) (input_files t) True t)"

subsection \<open>The executor\<close>

text \<open>\<^verbatim>\<open>ThreadPoolExecutor(max_workers=n)\<close> raises \<^verbatim>\<open>ValueError\<close> unless \<^verbatim>\<open>n\<close> is positive.\<close>

definition executor_ok :: "task \<Rightarrow> bool" where
  "executor_ok t = (0 < workers t)"

text \<open>
  \<^verbatim>\<open>executor.map(fn, items)\<close>, with the results collected by the caller in the order of
  the items. The model calls \<open>fn\<close> on the items in that order, and notes in \<open>worked\<close> the
  input an item stands for (\<open>tag\<close>) at the moment \<open>fn\<close> is called on it. When \<open>fn\<close> raises
  on an item, the caller has collected the results of the items before it and receives
  the exception; the pool has then still called \<open>fn\<close> on \<open>ov\<close> of the items behind it,
  whose results and exceptions nobody reads.
\<close>

fun run_uncollected ::
  "('a \<Rightarrow> input) \<Rightarrow> ('a \<Rightarrow> world \<Rightarrow> (error + 'r) \<times> world) \<Rightarrow> 'a list \<Rightarrow> world \<Rightarrow> world" where
  "run_uncollected tag fn [] w = w"
| "run_uncollected tag fn (x # xs) w =
     run_uncollected tag fn xs (snd (fn x (w\<lparr>worked := worked w @ [tag x]\<rparr>)))"

fun executor_map ::
  "nat \<Rightarrow> ('a \<Rightarrow> input) \<Rightarrow> ('a \<Rightarrow> world \<Rightarrow> (error + 'r) \<times> world) \<Rightarrow> 'a list \<Rightarrow> world \<Rightarrow>
   'r list \<times> error option \<times> world" where
  "executor_map ov tag fn [] w = ([], None, w)"
| "executor_map ov tag fn (x # xs) w =
     (case fn x (w\<lparr>worked := worked w @ [tag x]\<rparr>) of
        (Inl e, w') \<Rightarrow> ([], Some e, run_uncollected tag fn (take ov xs) w')
      | (Inr r, w') \<Rightarrow>
          (case executor_map ov tag fn xs w' of
             (rs, err, w'') \<Rightarrow> (r # rs, err, w'')))"

text \<open>What a \<^verbatim>\<open>_process\<close> returns after its loop: the exception, if one came out of the
  executor, or else its return value.\<close>

definition returns :: "error option \<Rightarrow> retval \<Rightarrow> error + retval" where
  "returns err v = (case err of Some e \<Rightarrow> Inl e | None \<Rightarrow> Inr v)"

subsection \<open>The work functions\<close>

text \<open>
  \<^verbatim>\<open>DownloadIIIFImageTask._process\<close>. The jobs
  \<^verbatim>\<open>[(file[0], self.rename_download(file)) for file in inputs]\<close> are built before any
  download starts.
\<close>

fun download_jobs :: "input list \<Rightarrow> error + (string \<times> string) list" where
  "download_jobs [] = Inr []"
| "download_jobs (file # rest) =
     (case input_getitem file 0 of
        Inl e \<Rightarrow> Inl e
      | Inr url \<Rightarrow>
          (case rename_download file of
             Inl e \<Rightarrow> Inl e
           | Inr tgt \<Rightarrow>
               (case download_jobs rest of
                  Inl e \<Rightarrow> Inl e
                | Inr jobs \<Rightarrow> Inr ((url, tgt) # jobs))))"

text \<open>The work function \<^verbatim>\<open>utils.download\<close> on one job, kept together with the input the
  job was built from.\<close>

definition download_job :: "env \<Rightarrow> input \<times> string \<times> string \<Rightarrow> world \<Rightarrow> (error + input option) \<times> world" where
  "download_job E item w =
     (case download E (snd item) (files w) of
        (file, fs') \<Rightarrow> (Inr file, w\<lparr>files := fs'\<rparr>))"

text \<open>\<^verbatim>\<open>if file: done.append(file)\<close> on what the downloads returned: \<^verbatim>\<open>None\<close> and the
  empty string are falsy.\<close>

fun truthy :: "input option \<Rightarrow> bool" where
  "truthy None = False"
| "truthy (Some (Str s)) = (s \<noteq> [])"
| "truthy (Some (Pair a b)) = True"

fun collect_done :: "input option list \<Rightarrow> input list" where
  "collect_done [] = []"
| "collect_done (file # rest) =
     (case file of
        None \<Rightarrow> collect_done rest
      | Some f \<Rightarrow> if truthy file then f # collect_done rest else collect_done rest)"

text \<open>\<^verbatim>\<open>for url, directory in inputs\<close>: a pair unpacks to its components, a string only
  when it has exactly two characters.\<close>

fun unpack_pair :: "input \<Rightarrow> error + string \<times> string" where
  "unpack_pair (Pair url directory) = Inr (url, directory)"
| "unpack_pair (Str s) = (case s of [a, b] \<Rightarrow> Inr ([a], [b]) | _ \<Rightarrow> Inl ValueError)"

text \<open>The handler of \<^verbatim>\<open>KeyboardInterrupt\<close>: the target of every input whose URL is not in
  \<^verbatim>\<open>done\<close> is removed when it exists.\<close>

fun remove_partial :: "input list \<Rightarrow> input list \<Rightarrow> fs \<Rightarrow> error option \<times> fs" where
  "remove_partial [] done fs = (None, fs)"
| "remove_partial (inp # rest) done fs =
     (case unpack_pair inp of
        Inl e \<Rightarrow> (Some e, fs)
      | Inr (url, directory) \<Rightarrow>
          if Str url \<notin> set done then
            (case rename_download (Pair url directory) of
               Inl e \<Rightarrow> (Some e, fs)
             | Inr tgt \<Rightarrow>
                 remove_partial rest done (if os_path_exists fs tgt then fs(tgt := None) else fs))
          else remove_partial rest done fs)"

text \<open>
  Without an interrupt the loop collects every result, \<^verbatim>\<open>done\<close> extends
  \<^verbatim>\<open>_output_files\<close> and the method returns \<^verbatim>\<open>True\<close>.
\<close>

definition Image_uninterrupted ::
  "env \<Rightarrow> input list \<Rightarrow> (string \<times> string) list \<Rightarrow> task \<Rightarrow> world \<Rightarrow> (error + retval) \<times> task \<times> world" where
  "Image_uninterrupted E inputs jobs t w =
     (case executor_map (overrun E) fst (download_job E) (zip inputs jobs) w of
        (results, err, w') \<Rightarrow>
          (returns err (RBool True),
           (case err of
              Some e \<Rightarrow> t
            | None \<Rightarrow> t\<lparr>priv_output_files := priv_output_files t @ collect_done results\<rparr>),
           w'))"

text \<open>
  With a \<^verbatim>\<open>KeyboardInterrupt\<close> after \<open>k\<close> collected results, the pool has called the work
  function on the next \<open>overrun\<close> items as well, and \<open>in_flight\<close> is what these unfinished
  downloads have put on disk. The handler prints its message and removes the targets of
  the inputs not in \<^verbatim>\<open>done\<close>; then, too, \<^verbatim>\<open>done\<close> extends \<^verbatim>\<open>_output_files\<close> and the
  method returns \<^verbatim>\<open>True\<close>.
\<close>

definition Image_interrupted ::
  "env \<Rightarrow> nat \<Rightarrow> input list \<Rightarrow> (string \<times> string) list \<Rightarrow> task \<Rightarrow> world \<Rightarrow>
   (error + retval) \<times> task \<times> world" where
  "Image_interrupted E k inputs jobs t w =
     (case executor_map (overrun E) fst (download_job E) (take k (zip inputs jobs)) w of
        (results, err, w') \<Rightarrow>
          (case remove_partial inputs (collect_done results) (in_flight E (files w')) of
             (Some e, fs') \<Rightarrow>
               (Inl e, t,
                print ''Download manually interrupted, removing partial JPGs''
                  (w'\<lparr>files := fs',
                      worked := worked w' @
                                map fst (take (overrun E) (drop k (zip inputs jobs)))\<rparr>))
           | (None, fs') \<Rightarrow>
               (Inr (RBool True),
                t\<lparr>priv_output_files := priv_output_files t @ collect_done results\<rparr>,
                print ''Download manually interrupted, removing partial JPGs''
                  (w'\<lparr>files := fs',
                      worked := worked w' @
                                map fst (take (overrun E) (drop k (zip inputs jobs)))\<rparr>))))"

definition Image_process :: "env \<Rightarrow> input list \<Rightarrow> task \<Rightarrow> world \<Rightarrow> (error + retval) \<times> task \<times> world" where
  "Image_process E inputs t w =
     (if \<not> executor_ok t then (Inl ValueError, t, w)
      else
        (case download_jobs inputs of
           Inl e \<Rightarrow> (Inl e, t, w)
         | Inr jobs \<Rightarrow>
             (case interrupt E of
                None \<Rightarrow> Image_uninterrupted E inputs jobs t w
              | Some k \<Rightarrow>
                  if length jobs \<le> k then Image_uninterrupted E inputs jobs t w
                  else Image_interrupted E k inputs jobs t w)))"

text \<open>\<^verbatim>\<open>DownloadIIIFManifestTask._process\<close>: each manifest is expanded into its index file.\<close>

definition expand_manifest :: "env \<Rightarrow> input \<times> string \<Rightarrow> world \<Rightarrow> (error + unit) \<times> world" where
  "expand_manifest E job w = (Inr (), w\<lparr>files := download_iiif_manifest E job (files w)\<rparr>)"

definition Manifest_process ::
  "env \<Rightarrow> (input \<Rightarrow> string) \<Rightarrow> string \<Rightarrow> input list \<Rightarrow> task \<Rightarrow> world \<Rightarrow> (error + retval) \<times> task \<times> world" where
  "Manifest_process E nf od inputs t w =
     (if \<not> executor_ok t then (Inl ValueError, t, w)
      else
        (case executor_map (overrun E) fst (expand_manifest E)
                [(file, Manifest_rename_download E nf od file). file \<leftarrow> inputs] w of
           (results, err, w') \<Rightarrow> (returns err (RBool True), t, w')))"

text \<open>
  \<^verbatim>\<open>KrakenLikeCommand._process\<close>. The inner function \<^verbatim>\<open>work\<close> builds the command line
  from the template, runs it and looks at the exit code: on \<^verbatim>\<open>1\<close> it prints the
  diagnostics and either raises \<^verbatim>\<open>InterruptedError\<close> or returns \<^verbatim>\<open>None\<close>; on any other
  code it returns the sample.
\<close>

definition command_line :: "string \<Rightarrow> string \<Rightarrow> string \<Rightarrow> string" where
  "command_line template out sample =
     str_replace (str_replace template ''$out'' out) ''$'' sample"

definition work :: "env \<Rightarrow> string option \<Rightarrow> string \<Rightarrow> bool \<Rightarrow> input \<Rightarrow> world \<Rightarrow> (error + input option) \<times> world" where
  "work E cmd fmt allow_failure sample w =
     (case cmd of
        None \<Rightarrow> (Inl AttributeError, w)
      | Some template \<Rightarrow>
          (case Kraken_rename fmt sample of
             Inl e \<Rightarrow> (Inl e, w)
           | Inr out \<Rightarrow>
               (case sample of
                  Pair a b \<Rightarrow> (Inl TypeError, w)
                | Str s \<Rightarrow>
                    (case popen E (command_line template out s) (files w) of
                       ((returncode, out_text, err_text), fs') \<Rightarrow>
                         if returncode = 1 then
                           (if \<not> allow_failure then Inl InterruptedError else Inr None,
                            print ''Stopped process''
                              (print err_text
                                 (print out_text
                                    (print ''Error detected in subprocess...''
                                       (w\<lparr>files := fs',
                                          spawned := spawned w @ [command_line template out s]\<rparr>)))))
                         else
                           (Inr (Some sample),
                            w\<lparr>files := fs',
                              spawned := spawned w @ [command_line template out s]\<rparr>)))))"

text \<open>The loop \<^verbatim>\<open>for fname in tp.map(work, inputs)\<close> appends every result that is not
  \<^verbatim>\<open>None\<close> to \<^verbatim>\<open>_output_files\<close>; the method has no \<^verbatim>\<open>return\<close>.\<close>

fun collect_names :: "input option list \<Rightarrow> input list" where
  "collect_names [] = []"
| "collect_names (fname # rest) =
     (case fname of None \<Rightarrow> collect_names rest | Some f \<Rightarrow> f # collect_names rest)"

definition Kraken_process ::
  "env \<Rightarrow> string \<Rightarrow> bool \<Rightarrow> input list \<Rightarrow> task \<Rightarrow> world \<Rightarrow> (error + retval) \<times> task \<times> world" where
  "Kraken_process E fmt allow_failure inputs t w =
     (if \<not> executor_ok t then (Inl ValueError, t, w)
      else
        (case executor_map (overrun E) (\<lambda>sample. sample) (work E (command t) fmt allow_failure)
                inputs w of
           (results, err, w') \<Rightarrow>
             (returns err RNone,
              t\<lparr>priv_output_files := priv_output_files t @ collect_names results\<rparr>, w')))"

text \<open>\<^verbatim>\<open>KrakenAltoCleanUpCommand._process\<close>: every file is rewritten in place.\<close>

definition clean_file :: "env \<Rightarrow> input \<Rightarrow> world \<Rightarrow> (error + unit) \<times> world" where
  "clean_file E file w = (Inr (), w\<lparr>files := clean_kraken_filename E file (files w)\<rparr>)"

definition CleanUp_process :: "env \<Rightarrow> input list \<Rightarrow> task \<Rightarrow> world \<Rightarrow> (error + retval) \<times> task \<times> world" where
  "CleanUp_process E inputs t w =
     (if \<not> executor_ok t then (Inl ValueError, t, w)
      else
        (case executor_map (overrun E) (\<lambda>file. file) (clean_file E) inputs w of
           (results, err, w') \<Rightarrow> (returns err (RBool True), t, w')))"

text \<open>\<^verbatim>\<open>ClearFileCommand._process\<close>: the work function is \<^verbatim>\<open>os.remove\<close>.\<close>

definition remove_file :: "input \<Rightarrow> world \<Rightarrow> (error + unit) \<times> world" where
  "remove_file file w =
     (case file of
        Pair a b \<Rightarrow> (Inl TypeError, w)
      | Str p \<Rightarrow>
          (case os_remove (files w) p of
             Inl e \<Rightarrow> (Inl e, w)
           | Inr fs' \<Rightarrow> (Inr (), w\<lparr>files := fs'\<rparr>)))"

definition Clear_process :: "env \<Rightarrow> input list \<Rightarrow> task \<Rightarrow> world \<Rightarrow> (error + retval) \<times> task \<times> world" where
  "Clear_process E inputs t w =
     (if \<not> executor_ok t then (Inl ValueError, t, w)
      else
        (case executor_map (overrun E) (\<lambda>file. file) remove_file inputs w of
           (results, err, w') \<Rightarrow> (returns err (RBool True), t, w')))"

text \<open>\<^verbatim>\<open>ExtractZoneAltoCommand._process\<close>: the text of the configured zones is written
  next to the input, unless the extraction is empty.\<close>

definition custom_alto_zone_extraction ::
  "env \<Rightarrow> string list \<Rightarrow> input \<Rightarrow> world \<Rightarrow> (error + unit) \<times> world" where
  "custom_alto_zone_extraction E zones input_file w =
     (case alto_zone_extraction E (files w) input_file zones of
        None \<Rightarrow> (Inr (), w)
      | Some content \<Rightarrow>
          if content = [] then (Inr (), w)
          else
            (case Extract_rename input_file of
               Inl e \<Rightarrow> (Inl e, w)
             | Inr out \<Rightarrow> (Inr (), w\<lparr>files := (files w)(out \<mapsto> content)\<rparr>)))"

definition Extract_process ::
  "env \<Rightarrow> string list \<Rightarrow> input list \<Rightarrow> task \<Rightarrow> world \<Rightarrow> (error + retval) \<times> task \<times> world" where
  "Extract_process E zones inputs t w =
     (if \<not> executor_ok t then (Inl ValueError, t, w)
      else
        (case executor_map (overrun E) (\<lambda>file. file) (custom_alto_zone_extraction E zones)
                inputs w of
           (results, err, w') \<Rightarrow> (returns err (RBool True), t, w')))"

text \<open>The method \<^verbatim>\<open>_process\<close>, by subclass.\<close>

definition priv_process :: "env \<Rightarrow> input list \<Rightarrow> task \<Rightarrow> world \<Rightarrow> (error + retval) \<times> task \<times> world" where
  "priv_process E inputs t w =
     (case kind t of
        DownloadIIIFImageTask dc \<Rightarrow> Image_process E inputs t w
      | DownloadIIIFManifestTask nf od \<Rightarrow> Manifest_process E nf od inputs t w
      | KrakenLikeCommand fmt desc allow chk \<Rightarrow> Kraken_process E fmt allow inputs t w
      | KrakenAltoCleanUpCommand \<Rightarrow> CleanUp_process E inputs t w
      | ClearFileCommand \<Rightarrow> Clear_process E inputs t w
      | ExtractZoneAltoCommand zones \<Rightarrow> Extract_process E zones inputs t w)"

subsection \<open>process\<close>

text \<open>
  \<^verbatim>\<open>Task.process\<close>: run \<^verbatim>\<open>check\<close>, collect the keys of \<^verbatim>\<open>_checked_files\<close> whose entry
  is false, and either print that nothing is left and return \<^verbatim>\<open>True\<close>, or hand those
  keys to \<^verbatim>\<open>_process\<close>.
\<close>

definition requires_processing :: "task \<Rightarrow> input list" where
  "requires_processing t = [file. (file, status) \<leftarrow> priv_checked_files t, \<not> status]"

definition process :: "env \<Rightarrow> task \<Rightarrow> world \<Rightarrow> (error + retval) \<times> task \<times> world" where
  "process E t w =
     (case check E t w of
        (Inl e, t') \<Rightarrow> (Inl e, t', w)
      | (Inr all_done, t') \<Rightarrow>
          if length (requires_processing t') = 0
          then (Inr (RBool True), t', print ''Nothing to process here.'' w)
          else priv_process E (requires_processing t') t' w)"

subsection \<open>output_files\<close>

text \<open>An element of \<^verbatim>\<open>output_files\<close>: a path, or a row of an index file as a tuple.\<close>

datatype out_item = OStr string | OTuple "string list"

fun output_of_input :: "input \<Rightarrow> out_item" where
  "output_of_input (Str s) = OStr s"
| "output_of_input (Pair a b) = OTuple [a, b]"

text \<open>A list comprehension whose element function can raise.\<close>

fun comprehension :: "('a \<Rightarrow> error + 'b) \<Rightarrow> 'a list \<Rightarrow> error + 'b list" where
  "comprehension f [] = Inr []"
| "comprehension f (x # xs) =
     (case f x of
        Inl e \<Rightarrow> Inl e
      | Inr y \<Rightarrow> (case comprehension f xs of Inl e \<Rightarrow> Inl e | Inr ys \<Rightarrow> Inr (y # ys)))"

text \<open>
  \<^verbatim>\<open>DownloadIIIFManifestTask.output_files\<close>: for every input whose index file exists,
  the file is opened, read as CSV and its rows, as tuples, extend \<^verbatim>\<open>out\<close>.
\<close>

fun Manifest_output_loop ::
  "env \<Rightarrow> (input \<Rightarrow> string) \<Rightarrow> string \<Rightarrow> fs \<Rightarrow> input list \<Rightarrow> string list list \<Rightarrow> string list list" where
  "Manifest_output_loop E nf od fs [] out = out"
| "Manifest_output_loop E nf od fs (file # rest) out =
     (case fs (Manifest_rename_download E nf od file) of
        None \<Rightarrow> Manifest_output_loop E nf od fs rest out
      | Some content \<Rightarrow> Manifest_output_loop E nf od fs rest (out @ csv_reader E content))"

definition Manifest_output_files :: "env \<Rightarrow> task \<Rightarrow> world \<Rightarrow> string list list" where
  "Manifest_output_files E t w =
     (case kind t of
        DownloadIIIFManifestTask nf od \<Rightarrow> Manifest_output_loop E nf od (files w) (input_files t) []
      | _ \<Rightarrow> [])"

definition output_files :: "env \<Rightarrow> task \<Rightarrow> world \<Rightarrow> error + out_item list" where
  "output_files E t w =
     (case kind t of
        DownloadIIIFImageTask dc \<Rightarrow>
          map_sum id (map OStr) (comprehension rename_download (priv_output_files t))
      | DownloadIIIFManifestTask nf od \<Rightarrow> Inr (map OTuple (Manifest_output_files E t w))
      | KrakenLikeCommand fmt desc allow chk \<Rightarrow>
          map_sum id (map OStr) (comprehension (Kraken_rename fmt) (priv_output_files t))
      | KrakenAltoCleanUpCommand \<Rightarrow> Inr (map output_of_input (input_files t))
      | ClearFileCommand \<Rightarrow> Inr []
      | ExtractZoneAltoCommand zones \<Rightarrow>
          map_sum id (map OStr) (comprehension Extract_rename (input_files t)))"

section \<open>The common shape of the loop in each check\<close>

text \<open>
  Each \<^verbatim>\<open>check\<close> decides, per input, the entry it writes, whether \<^verbatim>\<open>all_done\<close> survives
  and whether the input is appended to \<^verbatim>\<open>_output_files\<close>. \<open>check_step\<close> collects these
  three decisions by subclass, and \<open>check_loop\<close> is the loop around them; the lemmas
  below show that every loop of the model is this one.
\<close>

fun check_loop ::
  "(input \<Rightarrow> error + bool \<times> bool \<times> bool) \<Rightarrow> input list \<Rightarrow> bool \<Rightarrow> task \<Rightarrow> (error + bool) \<times> task" where
  "check_loop step [] all_done t = (Inr all_done, t)"
| "check_loop step (x # xs) all_done t =
     (case step x of
        Inl e \<Rightarrow> (Inl e, t)
      | Inr (status, keep, listed) \<Rightarrow>
          check_loop step xs (all_done \<and> keep)
            (t\<lparr>priv_checked_files := AList.update x status (priv_checked_files t),
               priv_output_files := priv_output_files t @ (if listed then [x] else [])\<rparr>))"

definition check_step :: "env \<Rightarrow> variant \<Rightarrow> fs \<Rightarrow> input \<Rightarrow> error + bool \<times> bool \<times> bool" where
  "check_step E k fs file =
     (case k of
        DownloadIIIFImageTask dc \<Rightarrow>
          (case rename_download file of
             Inl e \<Rightarrow> Inl e
           | Inr out_file \<Rightarrow>
               if os_path_exists fs out_file then Inr (True, True, True)
               else (case dc of
                       Some f \<Rightarrow> Inr (f fs file, f fs file, False)
                     | None \<Rightarrow> Inr (False, False, False)))
      | DownloadIIIFManifestTask nf od \<Rightarrow>
          Inr (os_path_exists fs (Manifest_rename_download E nf od file),
               os_path_exists fs (Manifest_rename_download E nf od file), False)
      | KrakenLikeCommand fmt desc allow chk \<Rightarrow>
          (case Kraken_rename fmt file of
             Inl e \<Rightarrow> Inl e
           | Inr out \<Rightarrow>
               if os_path_exists fs out
               then Inr (if chk then check_content E fs out else True, True, False)
               else Inr (False, False, False))
      | KrakenAltoCleanUpCommand \<Rightarrow>
          (case file of
             Pair a b \<Rightarrow> Inl TypeError
           | Str p \<Rightarrow>
               if os_path_exists fs p then Inr (check_kraken_filename E fs p, True, False)
               else Inr (False, False, False))
      | ClearFileCommand \<Rightarrow>
          (case file of
             Pair a b \<Rightarrow> Inl TypeError
           | Str p \<Rightarrow> Inr (\<not> os_path_exists fs p, \<not> os_path_exists fs p, False))
      | ExtractZoneAltoCommand zones \<Rightarrow>
          (case Extract_rename file of
             Inl e \<Rightarrow> Inl e
           | Inr out \<Rightarrow> Inr (os_path_exists fs out, os_path_exists fs out, False)))"

definition true_keys :: "task \<Rightarrow> input list" where
  "true_keys t = [inp. (inp, status) \<leftarrow> priv_checked_files t, status]"

text \<open>The targets the interrupt handler has to remove: those of the inputs whose URL is
  not in \<^verbatim>\<open>done\<close>.\<close>

definition partial_targets :: "input list \<Rightarrow> input list \<Rightarrow> string set" where
  "partial_targets inputs done =
     {tgt. \<exists>url directory. Pair url directory \<in> set inputs \<and> Str url \<notin> set done \<and>
             rename_download (Pair url directory) = Inr tgt}"


section \<open>Worked examples\<close>

text \<open>A world with no files, and collaborators that succeed without writing anything.\<close>

definition empty_world :: world where
  "empty_world = \<lparr>files = Map.empty, stdout = [], spawned = [], worked = []\<rparr>"

definition plain_env :: env where
  "plain_env =
     \<lparr>download = (\<lambda>job fs. (Some (Str (fst job)), fs(snd job \<mapsto> ''JPEG''))),
      download_iiif_manifest = (\<lambda>job fs. fs),
      check_content = (\<lambda>fs p. False),
      check_kraken_filename = (\<lambda>fs p. True),
      clean_kraken_filename = (\<lambda>file fs. fs),
      alto_zone_extraction = (\<lambda>fs file zones. None),
      string_to_hash = (\<lambda>file. case file of Str s \<Rightarrow> s | Pair a b \<Rightarrow> a),
      change_ext = (\<lambda>name ext. name @ ''.'' @ ext),
      popen = (\<lambda>cmd fs. ((0, [], []), fs)),
      csv_reader = (\<lambda>content. map (str_split CHR '','') (str_split CHR '';'' content)),
      interrupt = None,
      in_flight = (\<lambda>fs. fs),
      overrun = 1\<rparr>"

text \<open>A command task whose output exists on disk with content the validation rejects.\<close>

definition validating_env :: env where
  "validating_env =
     plain_env\<lparr>check_content :=
       (\<lambda>fs p. case fs p of None \<Rightarrow> False | Some c \<Rightarrow> startswith c ''<alto'')\<rparr>"

definition broken_output_world :: world where
  "broken_output_world =
     \<lparr>files = [''page.xml'' \<mapsto> ''<html>''], stdout = [], spawned = [], worked = []\<rparr>"

definition content_checked_task :: task where
  "content_checked_task =
     Task_init [Str ''page.jpg''] (Some ''kraken -i $ $out'') None
       (KrakenLikeCommand ''xml'' ''kraken-like'' True True)"

text \<open>A batch of three command invocations; the command of the second item exits with
  the given code and writes nothing, the others exit with \<^verbatim>\<open>0\<close> and write their output.\<close>

definition exit_code_env :: "int \<Rightarrow> env" where
  "exit_code_env rc =
     plain_env\<lparr>popen :=
       (\<lambda>cmd fs. if cmd = ''ocr b.jpg b.xml'' then ((rc, [], ''failed''), fs)
                  else ((0, [], []), fs(drop 10 cmd \<mapsto> ''<alto/>'')))\<rparr>"

definition batch_task :: "bool \<Rightarrow> task" where
  "batch_task allow_failure =
     Task_init [Str ''a.jpg'', Str ''b.jpg'', Str ''c.jpg''] (Some ''ocr $ $out'') None
       (KrakenLikeCommand ''xml'' ''kraken-like'' allow_failure False)"

definition first_done_world :: world where
  "first_done_world =
     \<lparr>files = [''a.xml'' \<mapsto> ''<alto/>''], stdout = [], spawned = [], worked = []\<rparr>"

text \<open>A deletion task whose only file is already gone.\<close>

definition clear_task :: task where
  "clear_task = Task_init [Str ''out/f0.jpg''] None None ClearFileCommand"

text \<open>A manifest task with two manifests, of which the first has been expanded.\<close>

definition manifest_task :: task where
  "manifest_task =
     DownloadIIIFManifestTask_init plain_env [Str ''m1'', Str ''m2''] None None None (Some ''out'')"

definition manifest_world :: world where
  "manifest_world =
     \<lparr>files = [''out/m1.csv'' \<mapsto> ''u1,d1;u2,d2''], stdout = [], spawned = [],
      worked = []\<rparr>"







section \<open>Properties\<close>

subsection \<open>Strings and paths\<close>

lemma startswith_iff: "startswith s p \<longleftrightarrow> (\<exists>post. s = p @ post)"
  unfolding startswith_def by (metis append_eq_conv_conj append_take_drop_id)

lemma str_contains_iff: "str_contains sub s \<longleftrightarrow> (\<exists>pre post. s = pre @ sub @ post)"
proof (induction s)
  case Nil
  show ?case by simp
next
  case (Cons c cs)
  show ?case
  proof
    assume "str_contains sub (c # cs)"
    then consider "startswith (c # cs) sub" | "str_contains sub cs" by auto
    then show "\<exists>pre post. c # cs = pre @ sub @ post"
    proof cases
      case 1
      then obtain post where "c # cs = sub @ post" by (auto simp: startswith_iff)
      then have "c # cs = [] @ sub @ post" by simp
      then show ?thesis by blast
    next
      case 2
      then obtain pre post where "cs = pre @ sub @ post" using Cons.IH by auto
      then have "c # cs = (c # pre) @ sub @ post" by simp
      then show ?thesis by blast
    qed
  next
    assume "\<exists>pre post. c # cs = pre @ sub @ post"
    then obtain pre post where eq: "c # cs = pre @ sub @ post" by auto
    show "str_contains sub (c # cs)"
    proof (cases pre)
      case Nil
      with eq have "startswith (c # cs) sub" by (auto simp: startswith_iff)
      then show ?thesis by simp
    next
      case (Cons p pre')
      with eq have "cs = pre' @ sub @ post" by simp
      then have "str_contains sub cs" using Cons.IH by auto
      then show ?thesis by simp
    qed
  qed
qed

lemma length_str_split: "length (str_split c s) = Suc (count_list s c)"
  by (induction s) (auto split: list.splits)

subsection \<open>The naming function of the download task\<close>

lemma rename_download_Str: "rename_download (Str s) = Inl IndexError"
proof (cases "2 \<le> length s")
  case False
  then show ?thesis by (simp add: rename_download_def list_getitem_def)
next
  case True
  then obtain a b rest where s: "s = a # b # rest"
    by (cases s; cases "tl s") auto
  have "length (str_split CHR ''/'' [a]) \<le> 2" by (simp add: length_str_split)
  then show ?thesis
    by (simp add: rename_download_def list_getitem_def s)
qed

text \<open>
  Claim C10. \<^verbatim>\<open>DownloadIIIFImageTask.rename_download\<close> is partial. On a bare string it
  always raises \<^verbatim>\<open>IndexError\<close>. On a pair (URI, directory) it returns a path exactly
  when the URI has at least five pieces between slashes, and the path is the directory
  joined with the fifth piece from the end followed by \<^verbatim>\<open>.jpg\<close>; with fewer pieces it
  raises \<^verbatim>\<open>IndexError\<close>.
\<close>

theorem rename_download_partial:
  "rename_download (Str s) = Inl IndexError \<and>
   rename_download (Pair uri directory) =
     (if 5 \<le> length (str_split CHR ''/'' uri)
      then Inr (os_path_join directory
                 (str_split CHR ''/'' uri ! (length (str_split CHR ''/'' uri) - 5) @ ''.jpg''))
      else Inl IndexError)"
proof
  show "rename_download (Str s) = Inl IndexError"
    by (rule rename_download_Str)
next
  show "rename_download (Pair uri directory) =
     (if 5 \<le> length (str_split CHR ''/'' uri)
      then Inr (os_path_join directory
                 (str_split CHR ''/'' uri ! (length (str_split CHR ''/'' uri) - 5) @ ''.jpg''))
      else Inl IndexError)"
    by (auto simp add: rename_download_def list_getitem_def nat_diff_distrib'
          intro!: arg_cong2[where f=os_path_join] arg_cong2[where f=nth])
qed

theorem rename_download_partial_witness:
  "rename_download (Str ''https://ex.org/iiif/abc/full/full/0/default.jpg'') = Inl IndexError \<and>
   rename_download (Pair ''https://ex.org/iiif/abc/full/full/0/default.jpg'' ''out'')
     = Inr ''out/abc.jpg'' \<and>
   rename_download (Pair ''abc/full/0/default.jpg'' ''out'') = Inl IndexError"
  using rename_download_partial[of "''https://ex.org/iiif/abc/full/full/0/default.jpg''"
          "''https://ex.org/iiif/abc/full/full/0/default.jpg''" "''out''"]
        rename_download_partial[of "[]" "''abc/full/0/default.jpg''" "''out''"]
  by (simp add: os_path_join_def startswith_def)

subsection \<open>Construction of a command task\<close>

text \<open>
  Claim C6. Constructing a \<^verbatim>\<open>KrakenLikeCommand\<close> with a template raises \<^verbatim>\<open>NameError\<close>
  exactly when the template does not contain \<^verbatim>\<open>$out\<close>, and yields the task, with no
  error, exactly when it does. This happens in the constructor, before any \<^verbatim>\<open>check\<close> or
  \<^verbatim>\<open>process\<close>.
\<close>

theorem KrakenLikeCommand_init_needs_out:
  "(KrakenLikeCommand_init inputs (Some c) mp fmt desc allow chk = Inl NameError)
      = (\<not> (\<exists>pre post. c = pre @ ''$out'' @ post))
   \<and> (KrakenLikeCommand_init inputs (Some c) mp fmt desc allow chk
        = Inr (Task_init inputs (Some c) mp (KrakenLikeCommand fmt desc allow chk)))
      = (\<exists>pre post. c = pre @ ''$out'' @ post)"
  by (simp add: KrakenLikeCommand_init_def str_contains_iff)

theorem KrakenLikeCommand_init_needs_out_witness:
  "KrakenLikeCommand_init [Str ''a.jpg''] (Some ''kraken -i $ out.xml'') None ''xml'' ''kraken-like''
      True False = Inl NameError
   \<and> (\<exists>pre post. ''kraken -i $ $out segment'' = pre @ ''$out'' @ post)"
proof -
  have "\<not> str_contains ''$out'' ''kraken -i $ out.xml''"
    by (simp add: startswith_def)
  then have "\<not> (\<exists>pre post. ''kraken -i $ out.xml'' = pre @ ''$out'' @ post)"
    by (simp only: str_contains_iff not_False_eq_True)
  moreover have "KrakenLikeCommand_init [Str ''a.jpg''] (Some ''kraken -i $ $out segment'') None
      ''xml'' ''kraken-like'' True False
      = Inr (Task_init [Str ''a.jpg''] (Some ''kraken -i $ $out segment'') None
               (KrakenLikeCommand ''xml'' ''kraken-like'' True False))"
    by (simp add: KrakenLikeCommand_init_def startswith_def)
  ultimately show ?thesis
    using KrakenLikeCommand_init_needs_out[of "[Str ''a.jpg'']" "''kraken -i $ out.xml''" None
            "''xml''" "''kraken-like''" True False]
          KrakenLikeCommand_init_needs_out[of "[Str ''a.jpg'']" "''kraken -i $ $out segment''" None
            "''xml''" "''kraken-like''" True False]
    by blast
qed

subsection \<open>Command template substitution\<close>

text \<open>
  Claim C9. For a template and an input path, the work function of the command task
  runs the command line obtained by first replacing \<^verbatim>\<open>$out\<close> with the output path
  computed for that input (the input without its extension, a dot, the output format)
  and then replacing \<^verbatim>\<open>$\<close> with the input path, in that order. The theorem gives the
  whole effect of \<^verbatim>\<open>work\<close> on a string input in terms of that command line.
\<close>

theorem work_command_substitution:
  "work E (Some template) fmt allow (Str s) w =
     (let cmd = str_replace
                  (str_replace template ''$out'' (fst (os_path_splitext s) @ ''.'' @ fmt))
                  ''$'' s;
          r = popen E cmd (files w);
          w' = w\<lparr>files := snd r, spawned := spawned w @ [cmd]\<rparr>
      in if fst (fst r) = 1
         then (if allow then Inr None else Inl InterruptedError,
               print ''Stopped process'' (print (snd (snd (fst r))) (print (fst (snd (fst r)))
                 (print ''Error detected in subprocess...'' w'))))
         else (Inr (Some (Str s)), w'))"
  by (auto simp add: work_def Kraken_rename_def command_line_def Let_def split: prod.splits)

theorem work_command_substitution_witness:
  "fst (work plain_env (Some ''kraken -i $ $out segment'') ''xml'' True (Str ''page/f1.jpg'')
          empty_world) = Inr (Some (Str ''page/f1.jpg'')) \<and>
   spawned (snd (work plain_env (Some ''kraken -i $ $out segment'') ''xml'' True
                   (Str ''page/f1.jpg'') empty_world))
     = [''kraken -i page/f1.jpg page/f1.xml segment'']"
  using work_command_substitution[of plain_env "''kraken -i $ $out segment''" "''xml''" True
          "''page/f1.jpg''" empty_world]
  by (simp add: plain_env_def empty_world_def Let_def str_replace_def startswith_def
        os_path_splitext_def rfind_def)

subsection \<open>The loop of check\<close>

lemma Image_check_loop_eq:
  "Image_check_loop dc fs xs a t = check_loop (check_step E (DownloadIIIFImageTask dc) fs) xs a t"
  by (induction xs arbitrary: a t) (auto simp: check_step_def split: sum.splits option.splits)

lemma Manifest_check_loop_eq:
  "Manifest_check_loop E nf od fs xs a t =
     check_loop (check_step E (DownloadIIIFManifestTask nf od) fs) xs a t"
  by (induction xs arbitrary: a t) (auto simp: check_step_def)

lemma Kraken_check_loop_eq:
  "Kraken_check_loop E fmt chk fs xs a t =
     check_loop (check_step E (KrakenLikeCommand fmt desc allow chk) fs) xs a t"
  by (induction xs arbitrary: a t) (auto simp: check_step_def split: sum.splits)

lemma CleanUp_check_loop_eq:
  "CleanUp_check_loop E fs xs a t = check_loop (check_step E KrakenAltoCleanUpCommand fs) xs a t"
  by (induction xs arbitrary: a t) (auto simp: check_step_def split: input.splits)

lemma Clear_check_loop_eq:
  "Clear_check_loop fs xs a t = check_loop (check_step E ClearFileCommand fs) xs a t"
  by (induction xs arbitrary: a t) (auto simp: check_step_def split: input.splits)

lemma Extract_check_loop_eq:
  "Extract_check_loop fs xs a t = check_loop (check_step E (ExtractZoneAltoCommand zones) fs) xs a t"
  by (induction xs arbitrary: a t) (auto simp: check_step_def split: sum.splits)

lemma check_eq:
  "check E t w =
     (case check_loop (check_step E (kind t) (files w)) (input_files t) True t of
        (Inl e, t') \<Rightarrow> (Inl e, t')
      | (Inr b, t') \<Rightarrow>
          (Inr b, case kind t of
                    KrakenLikeCommand fmt desc allow chk \<Rightarrow>
                      t'\<lparr>priv_output_files := priv_output_files t' @ true_keys t'\<rparr>
                  | _ \<Rightarrow> t'))"
proof (cases "kind t")
  case (DownloadIIIFImageTask dc)
  then show ?thesis
    by (simp add: check_def Image_check_loop_eq[where E=E] split: prod.splits sum.splits)
next
  case (DownloadIIIFManifestTask nf od)
  then show ?thesis
    by (simp add: check_def Manifest_check_loop_eq split: prod.splits sum.splits)
next
  case (KrakenLikeCommand fmt desc allow chk)
  then show ?thesis
    by (simp add: check_def Kraken_check_def true_keys_def
          Kraken_check_loop_eq[where desc=desc and allow=allow]
          split: prod.splits sum.splits)
next
  case KrakenAltoCleanUpCommand
  then show ?thesis
    by (simp add: check_def CleanUp_check_loop_eq split: prod.splits sum.splits)
next
  case ClearFileCommand
  then show ?thesis
    by (simp add: check_def Clear_check_loop_eq[where E=E] split: prod.splits sum.splits)
next
  case (ExtractZoneAltoCommand zones)
  then show ?thesis
    by (simp add: check_def Extract_check_loop_eq[where E=E and zones=zones]
          split: prod.splits sum.splits)
qed

lemma check_loop_frame:
  "check_loop step xs a t = (r, t') \<Longrightarrow>
     input_files t' = input_files t \<and> command t' = command t \<and> workers t' = workers t \<and> kind t' = kind t"
proof (induction xs arbitrary: a t)
  case Nil
  then show ?case by simp
next
  case (Cons x xs)
  show ?case
  proof (cases "step x")
    case (Inl e)
    with Cons.prems show ?thesis by simp
  next
    case (Inr p)
    obtain s k l where p: "p = (s, k, l)" by (cases p)
    from Cons.prems Inr p
    have "check_loop step xs (a \<and> k)
            (t\<lparr>priv_checked_files := AList.update x s (priv_checked_files t),
               priv_output_files := priv_output_files t @ (if l then [x] else [])\<rparr>) = (r, t')"
      by simp
    from Cons.IH[OF this] show ?thesis by simp
  qed
qed

lemma check_loop_distinct:
  "check_loop step xs a t = (r, t') \<Longrightarrow> distinct (map fst (priv_checked_files t)) \<Longrightarrow>
     distinct (map fst (priv_checked_files t'))"
proof (induction xs arbitrary: a t)
  case Nil
  then show ?case by simp
next
  case (Cons x xs)
  show ?case
  proof (cases "step x")
    case (Inl e)
    with Cons.prems show ?thesis by simp
  next
    case (Inr p)
    obtain s k l where p: "p = (s, k, l)" by (cases p)
    from Cons.prems Inr p
    have "check_loop step xs (a \<and> k)
            (t\<lparr>priv_checked_files := AList.update x s (priv_checked_files t),
               priv_output_files := priv_output_files t @ (if l then [x] else [])\<rparr>) = (r, t')"
      by simp
    from Cons.IH[OF this] Cons.prems(2) show ?thesis by (simp add: distinct_update)
  qed
qed

lemma check_loop_untouched:
  "check_loop step xs a t = (r, t') \<Longrightarrow> k \<notin> set xs \<Longrightarrow>
     map_of (priv_checked_files t') k = map_of (priv_checked_files t) k"
proof (induction xs arbitrary: a t)
  case Nil
  then show ?case by simp
next
  case (Cons x xs)
  show ?case
  proof (cases "step x")
    case (Inl e)
    with Cons.prems show ?thesis by simp
  next
    case (Inr p)
    obtain s kp l where p: "p = (s, kp, l)" by (cases p)
    from Cons.prems Inr p
    have "check_loop step xs (a \<and> kp)
            (t\<lparr>priv_checked_files := AList.update x s (priv_checked_files t),
               priv_output_files := priv_output_files t @ (if l then [x] else [])\<rparr>) = (r, t')"
      by simp
    from Cons.IH[OF this] Cons.prems(2) show ?thesis by (simp add: update_conv')
  qed
qed

lemma check_loop_entries:
  "check_loop step xs a t = (Inr b, t') \<Longrightarrow> x \<in> set xs \<Longrightarrow>
     \<exists>s k l. step x = Inr (s, k, l) \<and> map_of (priv_checked_files t') x = Some s"
proof (induction xs arbitrary: a t)
  case Nil
  then show ?case by simp
next
  case (Cons y ys)
  show ?case
  proof (cases "step y")
    case (Inl e)
    with Cons.prems show ?thesis by simp
  next
    case (Inr p)
    obtain s k l where p: "p = (s, k, l)" by (cases p)
    from Cons.prems Inr p
    have run: "check_loop step ys (a \<and> k)
            (t\<lparr>priv_checked_files := AList.update y s (priv_checked_files t),
               priv_output_files := priv_output_files t @ (if l then [y] else [])\<rparr>) = (Inr b, t')"
      by simp
    show ?thesis
    proof (cases "x \<in> set ys")
      case True
      from Cons.IH[OF run True] show ?thesis .
    next
      case False
      with Cons.prems(2) have xy: "x = y" by simp
      from check_loop_untouched[OF run False]
      have "map_of (priv_checked_files t') x = Some s" by (simp add: update_conv' xy)
      with Inr p xy show ?thesis by simp
    qed
  qed
qed




lemma check_Inr:
  assumes "check E t w = (Inr b, t')"
  obtains tl where
    "check_loop (check_step E (kind t) (files w)) (input_files t) True t = (Inr b, tl)"
    "priv_checked_files t' = priv_checked_files tl"
    "input_files t' = input_files tl" "kind t' = kind tl"
    "command t' = command tl" "workers t' = workers tl"
    "priv_output_files t' =
       priv_output_files tl @
         (case kind t of KrakenLikeCommand fmt desc allow chk \<Rightarrow> true_keys tl | _ \<Rightarrow> [])"
proof -
  obtain r tl where l: "check_loop (check_step E (kind t) (files w)) (input_files t) True t = (r, tl)"
    by (cases "check_loop (check_step E (kind t) (files w)) (input_files t) True t")
  with assms have r: "r = Inr b"
    by (cases r) (auto simp: check_eq)
  from assms l r have t': "t' = (case kind t of
                    KrakenLikeCommand fmt desc allow chk \<Rightarrow>
                      tl\<lparr>priv_output_files := priv_output_files tl @ true_keys tl\<rparr>
                  | _ \<Rightarrow> tl)"
    by (simp add: check_eq)
  show thesis
    by (rule that[of tl]) (use l r t' in \<open>auto split: variant.splits\<close>)
qed

lemma check_frame:
  assumes "check E t w = (r, t')"
  shows "input_files t' = input_files t \<and> command t' = command t \<and>
         workers t' = workers t \<and> kind t' = kind t"
proof -
  obtain r0 tl where l: "check_loop (check_step E (kind t) (files w)) (input_files t) True t = (r0, tl)"
    by (cases "check_loop (check_step E (kind t) (files w)) (input_files t) True t")
  from check_loop_frame[OF l] assms l show ?thesis
    by (cases r0) (auto simp: check_eq split: variant.splits)
qed

lemma check_distinct:
  assumes "check E t w = (r, t')" and "distinct (map fst (priv_checked_files t))"
  shows "distinct (map fst (priv_checked_files t'))"
proof -
  obtain r0 tl where l: "check_loop (check_step E (kind t) (files w)) (input_files t) True t = (r0, tl)"
    by (cases "check_loop (check_step E (kind t) (files w)) (input_files t) True t")
  from check_loop_distinct[OF l assms(2)] assms(1) l show ?thesis
    by (cases r0) (auto simp: check_eq split: variant.splits)
qed


lemma check_entries:
  assumes "check E t w = (Inr b, t')" and "x \<in> set (input_files t)"
  shows "\<exists>s k l. check_step E (kind t) (files w) x = Inr (s, k, l) \<and>
           map_of (priv_checked_files t') x = Some s"
proof -
  from assms(1) obtain tl where
    l: "check_loop (check_step E (kind t) (files w)) (input_files t) True t = (Inr b, tl)"
    and c: "priv_checked_files t' = priv_checked_files tl"
    by (rule check_Inr)
  from check_loop_entries[OF l assms(2)] c show ?thesis by simp
qed

lemma check_loop_flag:
  "check_loop step xs a t = (Inr b, t') \<Longrightarrow> b \<Longrightarrow> a"
proof (induction xs arbitrary: a t)
  case Nil
  then show ?case by simp
next
  case (Cons y ys)
  show ?case
  proof (cases "step y")
    case (Inl e)
    with Cons.prems show ?thesis by simp
  next
    case (Inr p)
    obtain s k l where p: "p = (s, k, l)" by (cases p)
    from Cons.prems Inr p
    have run: "check_loop step ys (a \<and> k)
            (t\<lparr>priv_checked_files := AList.update y s (priv_checked_files t),
               priv_output_files := priv_output_files t @ (if l then [y] else [])\<rparr>) = (Inr b, t')"
      by simp
    from Cons.IH[OF run Cons.prems(2)] show ?thesis by simp
  qed
qed

lemma check_loop_all_done:
  "check_loop step xs a t = (Inr b, t') \<Longrightarrow> b \<Longrightarrow> x \<in> set xs \<Longrightarrow>
     \<exists>s l. step x = Inr (s, True, l)"
proof (induction xs arbitrary: a t)
  case Nil
  then show ?case by simp
next
  case (Cons y ys)
  show ?case
  proof (cases "step y")
    case (Inl e)
    with Cons.prems show ?thesis by simp
  next
    case (Inr p)
    obtain s k l where p: "p = (s, k, l)" by (cases p)
    from Cons.prems Inr p
    have run: "check_loop step ys (a \<and> k)
            (t\<lparr>priv_checked_files := AList.update y s (priv_checked_files t),
               priv_output_files := priv_output_files t @ (if l then [y] else [])\<rparr>) = (Inr b, t')"
      by simp
    have ak: "a \<and> k" using check_loop_flag[OF run] Cons.prems(2) by simp
    show ?thesis
    proof (cases "x = y")
      case True
      with Inr p ak show ?thesis by simp
    next
      case False
      with Cons.prems(3) have "x \<in> set ys" by simp
      from Cons.IH[OF run Cons.prems(2) this] show ?thesis .
    qed
  qed
qed

lemma check_all_done:
  assumes "check E t w = (Inr b, t')" and "b" and "x \<in> set (input_files t)"
  shows "\<exists>s l. check_step E (kind t) (files w) x = Inr (s, True, l)"
proof -
  from assms(1) obtain tl where
    l: "check_loop (check_step E (kind t) (files w)) (input_files t) True t = (Inr b, tl)"
    by (rule check_Inr)
  from check_loop_all_done[OF l assms(2) assms(3)] show ?thesis .
qed

lemma check_loop_not_all_done:
  "check_loop step xs a t = (Inr b, t') \<Longrightarrow> \<not> b \<Longrightarrow> a \<Longrightarrow>
     \<exists>x \<in> set xs. \<exists>s l. step x = Inr (s, False, l)"
proof (induction xs arbitrary: a t)
  case Nil
  then show ?case by simp
next
  case (Cons y ys)
  show ?case
  proof (cases "step y")
    case (Inl e)
    with Cons.prems show ?thesis by simp
  next
    case (Inr p)
    obtain s k l where p: "p = (s, k, l)" by (cases p)
    from Cons.prems Inr p
    have run: "check_loop step ys (a \<and> k)
            (t\<lparr>priv_checked_files := AList.update y s (priv_checked_files t),
               priv_output_files := priv_output_files t @ (if l then [y] else [])\<rparr>) = (Inr b, t')"
      by simp
    show ?thesis
    proof (cases k)
      case True
      with Cons.prems(3) have "a \<and> k" by simp
      from Cons.IH[OF run Cons.prems(2) this] show ?thesis by auto
    next
      case False
      with Inr p show ?thesis by auto
    qed
  qed
qed

lemma requires_processing_set:
  assumes "distinct (map fst (priv_checked_files t))"
  shows "set (requires_processing t) = {file. map_of (priv_checked_files t) file = Some False}"
proof -
  have "set (requires_processing t) = {file. (file, False) \<in> set (priv_checked_files t)}"
    by (auto simp: requires_processing_def)
  also have "\<dots> = {file. map_of (priv_checked_files t) file = Some False}"
    using assms by (auto simp: map_of_eq_Some_iff)
  finally show ?thesis .
qed

lemma pending_empty:
  "([x. (x, status) \<leftarrow> cf, \<not> status] = []) = (\<forall>x status. (x, status) \<in> set cf \<longrightarrow> status)"
proof (induction cf)
  case Nil
  show ?case by simp
next
  case (Cons p cf)
  obtain a b where p: "p = (a, b)" by (cases p)
  show ?case using Cons.IH by (cases b) (auto simp: p)
qed

lemma requires_processing_empty:
  "(requires_processing t = []) =
     (\<forall>x status. (x, status) \<in> set (priv_checked_files t) \<longrightarrow> status)"
  unfolding requires_processing_def by (rule pending_empty)

subsection \<open>The executor and the work functions\<close>

text \<open>
  \<open>worked\<close> grows by the items on which the work function is called, in the order of the
  batch: by the whole batch when no exception comes out of the executor, by a front part
  of it otherwise. None of the work functions writes to \<open>worked\<close> itself.
\<close>

lemma download_jobs_inputs:
  "download_jobs inputs = Inr jobs \<Longrightarrow>
     length jobs = length inputs \<and>
     (\<forall>inp \<in> set inputs. \<exists>url directory tgt. inp = Pair url directory \<and> rename_download inp = Inr tgt)"
proof (induction inputs arbitrary: jobs)
  case Nil
  then show ?case by simp
next
  case (Cons inp inputs)
  from Cons.prems obtain url tgt js where
    a: "input_getitem inp 0 = Inr url" and b: "rename_download inp = Inr tgt"
    and c: "download_jobs inputs = Inr js" and d: "jobs = (url, tgt) # js"
    by (auto split: sum.splits)
  from b obtain u dir where p: "inp = Pair u dir"
    by (cases inp) (auto simp: rename_download_Str)
  from Cons.IH[OF c] b p d show ?case by auto
qed

lemma run_uncollected_worked:
  assumes "\<And>x w. worked (snd (fn x w)) = worked w"
  shows "worked (run_uncollected tag fn xs w) = worked w @ map tag xs"
proof (induction xs arbitrary: w)
  case Nil
  show ?case by simp
next
  case (Cons x xs)
  show ?case by (simp add: Cons.IH assms)
qed

lemma executor_map_worked:
  assumes pres: "\<And>x w. worked (snd (fn x w)) = worked w"
      and run: "executor_map ov tag fn xs w = (rs, err, w')"
  shows "(\<exists>n. worked w' = worked w @ map tag (take n xs)) \<and>
         (err = None \<longrightarrow> worked w' = worked w @ map tag xs)"
  using run
proof (induction xs arbitrary: w rs err w')
  case Nil
  then show ?case by simp
next
  case (Cons x xs)
  obtain res w1 where f: "fn x (w\<lparr>worked := worked w @ [tag x]\<rparr>) = (res, w1)"
    by (cases "fn x (w\<lparr>worked := worked w @ [tag x]\<rparr>)")
  have w1: "worked w1 = worked w @ [tag x]"
    using pres[of x "w\<lparr>worked := worked w @ [tag x]\<rparr>"] f by simp
  show ?case
  proof (cases res)
    case (Inl e)
    with Cons.prems f have e: "err = Some e" and w': "w' = run_uncollected tag fn (take ov xs) w1"
      by simp_all
    have "worked w' = worked w @ map tag (take (Suc ov) (x # xs))"
      using w' w1 run_uncollected_worked[of fn tag "take ov xs" w1, OF pres] by simp
    with e show ?thesis by blast
  next
    case (Inr r)
    obtain rs1 err1 w2 where m: "executor_map ov tag fn xs w1 = (rs1, err1, w2)"
      by (cases "executor_map ov tag fn xs w1") auto
    with Cons.prems f Inr have eq: "err = err1" "w' = w2" by simp_all
    from Cons.IH[OF m] obtain n where
      n: "worked w2 = worked w1 @ map tag (take n xs)"
      and full: "err1 = None \<longrightarrow> worked w2 = worked w1 @ map tag xs" by blast
    have "worked w' = worked w @ map tag (take (Suc n) (x # xs))"
      using n w1 eq by simp
    moreover have "err = None \<longrightarrow> worked w' = worked w @ map tag (x # xs)"
      using full w1 eq by simp
    ultimately show ?thesis by blast
  qed
qed

lemma executor_map_no_error:
  assumes "\<And>x w. \<exists>r w1. fn x w = (Inr r, w1)"
      and "executor_map ov tag fn xs w = (rs, err, w')"
  shows "err = None"
  using assms(2)
proof (induction xs arbitrary: w rs err w')
  case Nil
  then show ?case by simp
next
  case (Cons x xs)
  from assms(1)[of x "w\<lparr>worked := worked w @ [tag x]\<rparr>"] obtain r w1 where
    f: "fn x (w\<lparr>worked := worked w @ [tag x]\<rparr>) = (Inr r, w1)" by blast
  obtain rs1 err1 w2 where m: "executor_map ov tag fn xs w1 = (rs1, err1, w2)"
    by (cases "executor_map ov tag fn xs w1") auto
  from Cons.prems f m have "err = err1" by simp
  with Cons.IH[OF m] show ?case by simp
qed

lemma download_job_worked: "worked (snd (download_job E item w)) = worked w"
  by (simp add: download_job_def split: prod.splits)

lemma expand_manifest_worked: "worked (snd (expand_manifest E job w)) = worked w"
  by (simp add: expand_manifest_def)

lemma work_worked: "worked (snd (work E cmd fmt allow sample w)) = worked w"
  by (simp add: work_def print_def split: option.splits sum.splits input.splits prod.splits)

lemma clean_file_worked: "worked (snd (clean_file E file1 w)) = worked w"
  by (simp add: clean_file_def)

lemma remove_file_worked: "worked (snd (remove_file file1 w)) = worked w"
  by (simp add: remove_file_def split: input.splits sum.splits)

lemma custom_alto_zone_extraction_worked:
  "worked (snd (custom_alto_zone_extraction E zones file1 w)) = worked w"
  by (simp add: custom_alto_zone_extraction_def split: option.splits sum.splits)

lemma map_fst_take_zip:
  "length ys = length xs \<Longrightarrow> map fst (take n (zip xs ys)) = take n xs"
  by (simp add: take_zip)

lemma Image_process_worked:
  assumes "Image_process E xs t w = (r, t', w')"
  shows "(\<exists>n. worked w' = worked w @ take n xs) \<and>
         ((\<exists>v. r = Inr v) \<and> interrupt E = None \<longrightarrow> worked w' = worked w @ xs)"
proof (cases "executor_ok t")
  case False
  with assms have "w' = w" "r = Inl ValueError" by (simp_all add: Image_process_def)
  then show ?thesis by (auto intro: exI[of _ 0])
next
  case True
  show ?thesis
  proof (cases "download_jobs xs")
    case (Inl e)
    with assms True have "w' = w" "r = Inl e" by (simp_all add: Image_process_def)
    then show ?thesis by (auto intro: exI[of _ 0])
  next
    case (Inr jobs)
    then have len: "length jobs = length xs" using download_jobs_inputs by blast
    have un: "(\<exists>n. worked w' = worked w @ take n xs) \<and>
              ((\<exists>v. r = Inr v) \<longrightarrow> worked w' = worked w @ xs)"
      if u: "Image_uninterrupted E xs jobs t w = (r, t', w')"
    proof -
      obtain rs err w1 where
        m: "executor_map (overrun E) fst (download_job E) (zip xs jobs) w = (rs, err, w1)"
        by (cases "executor_map (overrun E) fst (download_job E) (zip xs jobs) w") auto
      from u m have w': "w' = w1" and r: "r = returns err (RBool True)"
        by (simp_all add: Image_uninterrupted_def)
      from executor_map_worked[OF download_job_worked m] obtain n where
        n: "worked w1 = worked w @ map fst (take n (zip xs jobs))"
        and full: "err = None \<longrightarrow> worked w1 = worked w @ map fst (zip xs jobs)" by blast
      have "worked w' = worked w @ take n xs"
        using n len w' by (simp add: map_fst_take_zip)
      moreover have "worked w' = worked w @ xs" if "\<exists>v. r = Inr v"
      proof -
        from that r have "err = None" by (cases err) (auto simp: returns_def)
        with full len w' show ?thesis by simp
      qed
      ultimately show ?thesis by blast
    qed
    have intr: "\<exists>n. worked w' = worked w @ take n xs"
      if i: "Image_interrupted E k xs jobs t w = (r, t', w')" for k
    proof -
      obtain rs err w1 where
        m: "executor_map (overrun E) fst (download_job E) (take k (zip xs jobs)) w = (rs, err, w1)"
        by (cases "executor_map (overrun E) fst (download_job E) (take k (zip xs jobs)) w") auto
      have "err = None"
        using executor_map_no_error[OF _ m] by (simp add: download_job_def split: prod.splits)
      with executor_map_worked[OF download_job_worked m]
      have "worked w1 = worked w @ map fst (take k (zip xs jobs))" by simp
      moreover from i m have
        "worked w' = worked w1 @ map fst (take (overrun E) (drop k (zip xs jobs)))"
        by (auto simp: Image_interrupted_def print_def split: prod.splits option.splits)
      ultimately have "worked w' = worked w @ map fst (take (k + overrun E) (zip xs jobs))"
        by (simp add: take_add)
      then have "worked w' = worked w @ take (k + overrun E) xs"
        using len by (simp add: map_fst_take_zip)
      then show ?thesis by blast
    qed
    from assms True Inr un intr show ?thesis
      by (auto simp: Image_process_def split: option.splits if_splits)
  qed
qed

lemma plain_process_worked:
  assumes pres: "\<And>x w. worked (snd (fn x w)) = worked w"
      and run: "(case executor_map ov tag fn items w of
                   (results, err, w1) \<Rightarrow> (returns err v, g results, w1)) = (r, t', w')"
      and tags: "map tag items = xs"
  shows "(\<exists>n. worked w' = worked w @ take n xs) \<and>
         ((\<exists>v. r = Inr v) \<longrightarrow> worked w' = worked w @ xs)"
proof -
  obtain rs err w1 where m: "executor_map ov tag fn items w = (rs, err, w1)"
    by (cases "executor_map ov tag fn items w") auto
  from run m have w': "w' = w1" and r: "r = returns err v" by simp_all
  from executor_map_worked[OF pres m] obtain n where
    n: "worked w1 = worked w @ map tag (take n items)"
    and full: "err = None \<longrightarrow> worked w1 = worked w @ map tag items" by blast
  have "worked w' = worked w @ take n xs"
    using n w' tags[symmetric] by (simp add: take_map)
  moreover have "worked w' = worked w @ xs" if "\<exists>v. r = Inr v"
  proof -
    from that r have "err = None" by (cases err) (auto simp: returns_def)
    with full w' tags show ?thesis by simp
  qed
  ultimately show ?thesis by blast
qed

lemma priv_process_worked:
  assumes "priv_process E xs t w = (r, t', w')"
  shows "(\<exists>n. worked w' = worked w @ take n xs) \<and>
         ((\<exists>v. r = Inr v) \<and> (interrupt E = None \<or> (\<forall>dc. kind t \<noteq> DownloadIIIFImageTask dc)) \<longrightarrow>
            worked w' = worked w @ xs)"
proof (cases "executor_ok t")
  case False
  with assms have "w' = w" "r = Inl ValueError"
    by (auto simp: priv_process_def Image_process_def Manifest_process_def Kraken_process_def
          CleanUp_process_def Clear_process_def Extract_process_def split: variant.splits)
  then show ?thesis by (auto intro: exI[of _ 0])
next
  case True
  show ?thesis
  proof (cases "kind t")
    case (DownloadIIIFImageTask dc)
    with assms have "Image_process E xs t w = (r, t', w')" by (simp add: priv_process_def)
    from Image_process_worked[OF this] DownloadIIIFImageTask show ?thesis by auto
  next
    case (DownloadIIIFManifestTask nf od)
    with assms True have
      "(case executor_map (overrun E) fst (expand_manifest E)
               [(file, Manifest_rename_download E nf od file). file \<leftarrow> xs] w of
          (results, err, w1) \<Rightarrow> (returns err (RBool True), (\<lambda>rs. t) results, w1)) = (r, t', w')"
      by (simp add: priv_process_def Manifest_process_def)
    from plain_process_worked[OF expand_manifest_worked this] show ?thesis
      by (simp add: comp_def)
  next
    case (KrakenLikeCommand fmt desc allow chk)
    with assms True have
      "(case executor_map (overrun E) (\<lambda>sample. sample) (work E (command t) fmt allow) xs w of
          (results, err, w1) \<Rightarrow>
            (returns err RNone,
             (\<lambda>rs. t\<lparr>priv_output_files := priv_output_files t @ collect_names rs\<rparr>) results,
             w1)) = (r, t', w')"
      by (simp add: priv_process_def Kraken_process_def)
    from plain_process_worked[OF work_worked this] show ?thesis by simp
  next
    case KrakenAltoCleanUpCommand
    with assms True have
      "(case executor_map (overrun E) (\<lambda>file. file) (clean_file E) xs w of
          (results, err, w1) \<Rightarrow> (returns err (RBool True), (\<lambda>rs. t) results, w1)) = (r, t', w')"
      by (simp add: priv_process_def CleanUp_process_def)
    from plain_process_worked[OF clean_file_worked this] show ?thesis by simp
  next
    case ClearFileCommand
    with assms True have
      "(case executor_map (overrun E) (\<lambda>file. file) remove_file xs w of
          (results, err, w1) \<Rightarrow> (returns err (RBool True), (\<lambda>rs. t) results, w1)) = (r, t', w')"
      by (simp add: priv_process_def Clear_process_def)
    from plain_process_worked[OF remove_file_worked this] show ?thesis by simp
  next
    case (ExtractZoneAltoCommand zones)
    with assms True have
      "(case executor_map (overrun E) (\<lambda>file. file) (custom_alto_zone_extraction E zones) xs w of
          (results, err, w1) \<Rightarrow> (returns err (RBool True), (\<lambda>rs. t) results, w1)) = (r, t', w')"
      by (simp add: priv_process_def Extract_process_def)
    from plain_process_worked[OF custom_alto_zone_extraction_worked this] show ?thesis by simp
  qed
qed


lemmas kraken_eval =
  process_def check_def Kraken_check_def priv_process_def Kraken_process_def executor_ok_def
  returns_def work_def command_line_def str_replace_def startswith_def Kraken_rename_def
  os_path_splitext_def rfind_def os_path_exists_def requires_processing_def print_def
  Task_init_def plain_env_def empty_world_def output_files_def

subsection \<open>process: nothing to do\<close>

text \<open>
  Claim C7. \<^verbatim>\<open>process\<close> first calls \<^verbatim>\<open>check\<close>: what \<^verbatim>\<open>check\<close> raises, \<^verbatim>\<open>process\<close> raises,
  and the task it goes on with is the one \<^verbatim>\<open>check\<close> left. If then every entry of
  \<^verbatim>\<open>_checked_files\<close> is true, \<^verbatim>\<open>process\<close> prints that nothing is to be processed and
  returns \<^verbatim>\<open>True\<close>; the world is otherwise untouched: no file changes, no command is
  spawned, the work function runs on no item.
\<close>

theorem process_nothing_to_process:
  "(check E t w = (Inl e, t') \<longrightarrow> process E t w = (Inl e, t', w)) \<and>
   (check E t w = (Inr all_done, t') \<and>
      (\<forall>file status. (file, status) \<in> set (priv_checked_files t') \<longrightarrow> status) \<longrightarrow>
    process E t w =
      (Inr (RBool True), t', w\<lparr>stdout := stdout w @ [''Nothing to process here.'']\<rparr>))"
  by (auto simp: process_def print_def requires_processing_empty[symmetric])

theorem process_nothing_to_process_witness:
  "priv_checked_files (snd (check plain_env clear_task empty_world)) = [(Str ''out/f0.jpg'', True)] \<and>
   process plain_env clear_task empty_world =
     (Inr (RBool True), snd (check plain_env clear_task empty_world),
      empty_world\<lparr>stdout := [''Nothing to process here.'']\<rparr>)"
proof -
  have c: "check plain_env clear_task empty_world =
             (Inr True, snd (check plain_env clear_task empty_world))"
    by (simp add: prod_eq_iff check_def clear_task_def Task_init_def empty_world_def
          os_path_exists_def)
  have e: "priv_checked_files (snd (check plain_env clear_task empty_world))
             = [(Str ''out/f0.jpg'', True)]"
    by (simp add: check_def clear_task_def Task_init_def empty_world_def os_path_exists_def)
  then have a: "\<forall>x status. (x, status) \<in> set (priv_checked_files
                  (snd (check plain_env clear_task empty_world))) \<longrightarrow> status"
    by simp
  show ?thesis
    using process_nothing_to_process[of plain_env clear_task empty_world IndexError
            "snd (check plain_env clear_task empty_world)" True] c a e
    by (simp add: empty_world_def)
qed

subsection \<open>process: the batch handed to the work function\<close>

lemma process_worked:
  assumes c: "check E t w = (Inr all_done, t')" and p: "process E t w = (r, t'', w'')"
  shows "(\<exists>n. worked w'' = worked w @ take n (requires_processing t')) \<and>
         ((\<exists>v. r = Inr v) \<and> (interrupt E = None \<or> (\<forall>dc. kind t \<noteq> DownloadIIIFImageTask dc)) \<longrightarrow>
            worked w'' = worked w @ requires_processing t')"
proof (cases "requires_processing t' = []")
  case True
  with c p have "w'' = print ''Nothing to process here.'' w" by (simp add: process_def)
  with True show ?thesis by (simp add: print_def)
next
  case False
  with c p have "priv_process E (requires_processing t') t' w = (r, t'', w'')"
    by (simp add: process_def)
  from priv_process_worked[OF this] check_frame[OF c] show ?thesis by simp
qed

text \<open>
  Claim C8. In every call of \<^verbatim>\<open>process\<close>, the batch handed to \<^verbatim>\<open>_process\<close> consists of
  exactly the keys whose entry of \<^verbatim>\<open>_checked_files\<close> is false after the \<^verbatim>\<open>check\<close> of that
  call. Every input of the task gets its entry from the completion test of this very
  \<^verbatim>\<open>check\<close>, and it is in the batch if and only if that test said "not done". Inside
  \<^verbatim>\<open>_process\<close>, of whichever subclass, the executor calls the work function on the items
  of that batch and on nothing else: during the call, \<open>worked\<close> grows by a front part
  of the batch, and by the whole batch, each item once and in order, when the call
  returns without exception (for the download task: and without interrupt). So an input
  found done by this call's \<^verbatim>\<open>check\<close> is never handed to the work function.
  (\<^verbatim>\<open>_checked_files\<close> is a dictionary: its keys are distinct.)
\<close>

theorem process_batch_is_pending:
  assumes "distinct (map fst (priv_checked_files t))"
      and "check E t w = (Inr all_done, t')"
      and "process E t w = (r, t'', w'')"
  shows "(requires_processing t' \<noteq> [] \<longrightarrow>
            process E t w = priv_process E (requires_processing t') t' w)
       \<and> set (requires_processing t') = {x. map_of (priv_checked_files t') x = Some False}
       \<and> (\<forall>x \<in> set (input_files t).
             \<exists>status keep listed.
               check_step E (kind t) (files w) x = Inr (status, keep, listed) \<and>
               map_of (priv_checked_files t') x = Some status \<and>
               (x \<in> set (requires_processing t') \<longleftrightarrow> \<not> status))
       \<and> (\<exists>n. worked w'' = worked w @ take n (requires_processing t'))
       \<and> ((\<exists>v. r = Inr v) \<and>
            (interrupt E = None \<or> (\<forall>dc. kind t \<noteq> DownloadIIIFImageTask dc)) \<longrightarrow>
            worked w'' = worked w @ requires_processing t')
       \<and> (\<forall>x. map_of (priv_checked_files t') x = Some True \<longrightarrow>
             x \<notin> set (drop (length (worked w)) (worked w'')))"
proof (intro conjI)
  show "requires_processing t' \<noteq> [] \<longrightarrow>
          process E t w = priv_process E (requires_processing t') t' w"
    using assms(2) by (simp add: process_def)
next
  have d: "distinct (map fst (priv_checked_files t'))"
    using check_distinct[OF assms(2) assms(1)] .
  show s: "set (requires_processing t') = {x. map_of (priv_checked_files t') x = Some False}"
    using requires_processing_set[OF d] .
  show "\<forall>x \<in> set (input_files t).
             \<exists>status keep listed.
               check_step E (kind t) (files w) x = Inr (status, keep, listed) \<and>
               map_of (priv_checked_files t') x = Some status \<and>
               (x \<in> set (requires_processing t') \<longleftrightarrow> \<not> status)"
  proof
    fix x assume "x \<in> set (input_files t)"
    from check_entries[OF assms(2) this] obtain st k l where
      "check_step E (kind t) (files w) x = Inr (st, k, l)"
      "map_of (priv_checked_files t') x = Some st" by blast
    then show "\<exists>status keep listed.
               check_step E (kind t) (files w) x = Inr (status, keep, listed) \<and>
               map_of (priv_checked_files t') x = Some status \<and>
               (x \<in> set (requires_processing t') \<longleftrightarrow> \<not> status)"
      using s by auto
  qed
  from process_worked[OF assms(2) assms(3)] obtain n where
    n: "worked w'' = worked w @ take n (requires_processing t')"
    and full: "(\<exists>v. r = Inr v) \<and>
            (interrupt E = None \<or> (\<forall>dc. kind t \<noteq> DownloadIIIFImageTask dc)) \<longrightarrow>
            worked w'' = worked w @ requires_processing t'"
    by blast
  from n show "\<exists>n. worked w'' = worked w @ take n (requires_processing t')" by blast
  from full show "(\<exists>v. r = Inr v) \<and>
            (interrupt E = None \<or> (\<forall>dc. kind t \<noteq> DownloadIIIFImageTask dc)) \<longrightarrow>
            worked w'' = worked w @ requires_processing t'" .
  show "\<forall>x. map_of (priv_checked_files t') x = Some True \<longrightarrow>
             x \<notin> set (drop (length (worked w)) (worked w''))"
  proof (intro allI impI)
    fix x assume t: "map_of (priv_checked_files t') x = Some True"
    show "x \<notin> set (drop (length (worked w)) (worked w''))"
    proof
      assume "x \<in> set (drop (length (worked w)) (worked w''))"
      with n have "x \<in> set (take n (requires_processing t'))" by simp
      then have "x \<in> set (requires_processing t')" by (rule in_set_takeD)
      with s t show False by simp
    qed
  qed
qed

theorem process_batch_is_pending_witness:
  "requires_processing (snd (check (exit_code_env 0) (batch_task True) first_done_world))
     = [Str ''b.jpg'', Str ''c.jpg''] \<and>
   worked (snd (snd (process (exit_code_env 0) (batch_task True) first_done_world)))
     = [Str ''b.jpg'', Str ''c.jpg''] \<and>
   spawned (snd (snd (process (exit_code_env 0) (batch_task True) first_done_world)))
     = [''ocr b.jpg b.xml'', ''ocr c.jpg c.xml''] \<and>
   map_of (priv_checked_files (snd (check (exit_code_env 0) (batch_task True) first_done_world)))
     (Str ''a.jpg'') = Some True"
proof -
  let ?E = "exit_code_env 0" and ?t = "batch_task True" and ?w = "first_done_world"
  have d: "distinct (map fst (priv_checked_files ?t))"
    by (simp add: batch_task_def Task_init_def)
  have c: "check ?E ?t ?w = (Inr False, snd (check ?E ?t ?w))"
    by (simp add: prod_eq_iff check_def Kraken_check_def batch_task_def Task_init_def
          first_done_world_def Kraken_rename_def os_path_splitext_def rfind_def
          os_path_exists_def)
  have p: "process ?E ?t ?w =
             (Inr RNone, fst (snd (process ?E ?t ?w)), snd (snd (process ?E ?t ?w)))"
    by (simp add: prod_eq_iff kraken_eval exit_code_env_def batch_task_def first_done_world_def)
  have r: "requires_processing (snd (check ?E ?t ?w)) = [Str ''b.jpg'', Str ''c.jpg'']"
    by (simp add: check_def Kraken_check_def batch_task_def Task_init_def
          first_done_world_def Kraken_rename_def os_path_splitext_def rfind_def
          os_path_exists_def requires_processing_def)
  have m: "map_of (priv_checked_files (snd (check ?E ?t ?w))) (Str ''a.jpg'') = Some True"
    by (simp add: check_def Kraken_check_def batch_task_def Task_init_def
          first_done_world_def Kraken_rename_def os_path_splitext_def rfind_def
          os_path_exists_def)
  have i: "interrupt ?E = None" by (simp add: exit_code_env_def plain_env_def)
  have w0: "worked ?w = []" by (simp add: first_done_world_def)
  have s: "spawned (snd (snd (process ?E ?t ?w))) = [''ocr b.jpg b.xml'', ''ocr c.jpg c.xml'']"
    by (simp add: kraken_eval exit_code_env_def batch_task_def first_done_world_def)
  from process_batch_is_pending[OF d c p]
  have "(\<exists>v. (Inr RNone :: error + retval) = Inr v) \<and>
          (interrupt ?E = None \<or> (\<forall>dc. kind ?t \<noteq> DownloadIIIFImageTask dc)) \<longrightarrow>
        worked (snd (snd (process ?E ?t ?w))) =
          worked ?w @ requires_processing (snd (check ?E ?t ?w))"
    by blast
  with i r w0
  have "worked (snd (snd (process ?E ?t ?w))) = [Str ''b.jpg'', Str ''c.jpg'']"
    by simp
  with r s m show ?thesis by simp
qed

subsection \<open>The outputs of the manifest task\<close>

lemma Manifest_output_loop_eq:
  "Manifest_output_loop E nf od fs xs out =
     out @ concat (map (\<lambda>file. case fs (Manifest_rename_download E nf od file) of
                                 None \<Rightarrow> [] | Some content \<Rightarrow> csv_reader E content) xs)"
  by (induction xs arbitrary: out) (auto split: option.splits)

lemma concat_existing:
  "concat (map (\<lambda>x. case g x of None \<Rightarrow> [] | Some c \<Rightarrow> f c) xs) =
   concat (map (\<lambda>x. f (the (g x))) (filter (\<lambda>x. g x \<noteq> None) xs))"
  by (induction xs) auto

text \<open>
  Claim C5. \<^verbatim>\<open>output_files\<close> of a manifest task is computed from the filesystem at each
  read: it is the concatenation, over the inputs in order, of the rows of the index file
  of every input whose index file exists, each row as a tuple. Nothing kept in memory
  enters: two task objects with the same inputs and options read the same outputs from
  the same files, whatever their \<^verbatim>\<open>_checked_files\<close>. An index of N rows contributes its
  N rows.
\<close>

theorem Manifest_output_files_from_disk:
  assumes "kind t = DownloadIIIFManifestTask nf od"
  shows "output_files E t w =
           Inr (map OTuple
                 (concat (map (\<lambda>file. csv_reader E (the (files w (Manifest_rename_download E nf od file))))
                           (filter (\<lambda>file. os_path_exists (files w) (Manifest_rename_download E nf od file))
                              (input_files t)))))
       \<and> (\<forall>t2 w2. input_files t2 = input_files t \<and> kind t2 = kind t \<and> files w2 = files w \<longrightarrow>
             output_files E t2 w2 = output_files E t w)"
  using assms
  by (simp add: output_files_def Manifest_output_files_def Manifest_output_loop_eq
        concat_existing os_path_exists_def)

theorem Manifest_output_files_from_disk_witness:
  "output_files plain_env manifest_task manifest_world
     = Inr [OTuple [''u1'', ''d1''], OTuple [''u2'', ''d2'']]"
proof -
  have k: "kind manifest_task = DownloadIIIFManifestTask (string_to_hash plain_env) ''out''"
    by (simp add: manifest_task_def DownloadIIIFManifestTask_init_def Task_init_def)
  show ?thesis
    using Manifest_output_files_from_disk[OF k, of plain_env manifest_world]
    by (simp add: manifest_task_def DownloadIIIFManifestTask_init_def Task_init_def
          manifest_world_def plain_env_def Manifest_rename_download_def os_path_join_def
          startswith_def os_path_exists_def)
qed

subsection \<open>Content validation in the check of the command task\<close>

text \<open>
  What \<^verbatim>\<open>check\<close> of a command task returns, and what it writes: the returned flag says
  that every output exists, whereas the entry of an input says that its output exists and,
  with content checking enabled, passes \<^verbatim>\<open>utils.check_content\<close>. The two agree when
  content checking is disabled.
\<close>

lemma Kraken_check_returns:
  assumes k: "kind t = KrakenLikeCommand fmt desc allow chk"
      and c: "check E t w = (Inr b, t')"
  shows "b = (\<forall>x \<in> set (input_files t).
                \<exists>out. Kraken_rename fmt x = Inr out \<and> os_path_exists (files w) out)"
proof -
  from c obtain tl where
    l: "check_loop (check_step E (kind t) (files w)) (input_files t) True t = (Inr b, tl)"
    by (rule check_Inr)
  show ?thesis
  proof (cases b)
    case True
    have "\<exists>out. Kraken_rename fmt x = Inr out \<and> os_path_exists (files w) out"
      if "x \<in> set (input_files t)" for x
      using check_loop_all_done[OF l True that] k
      by (auto simp: check_step_def split: sum.splits if_splits)
    with True show ?thesis by simp
  next
    case False
    from check_loop_not_all_done[OF l False] obtain x s lst where
      x: "x \<in> set (input_files t)" "check_step E (kind t) (files w) x = Inr (s, False, lst)"
      by auto
    from x(2) k have "\<not> (\<exists>out. Kraken_rename fmt x = Inr out \<and> os_path_exists (files w) out)"
      by (auto simp: check_step_def split: sum.splits if_splits)
    with x(1) False show ?thesis by auto
  qed
qed

lemma Kraken_check_entry:
  assumes k: "kind t = KrakenLikeCommand fmt desc allow chk"
      and c: "check E t w = (Inr b, t')" and x: "x \<in> set (input_files t)"
  shows "\<exists>out. Kraken_rename fmt x = Inr out \<and>
           map_of (priv_checked_files t') x =
             Some (os_path_exists (files w) out \<and> (chk \<longrightarrow> check_content E (files w) out))"
proof -
  from check_entries[OF c x] obtain s kp l where
    st: "check_step E (kind t) (files w) x = Inr (s, kp, l)"
    and m: "map_of (priv_checked_files t') x = Some s" by blast
  from st k m show ?thesis
    by (auto simp: check_step_def split: sum.splits if_splits)
qed

text \<open>
  Claim C2 says that \<^verbatim>\<open>check\<close> of a command task returns true if and only if every input
  is done. With content checking enabled the code does not do this: when the output
  exists and \<^verbatim>\<open>utils.check_content\<close> rejects it, the entry is false but \<^verbatim>\<open>all_done\<close> is
  left as it was. Here the only input is not done, is going to be processed, and
  \<^verbatim>\<open>check\<close> still returns \<^verbatim>\<open>True\<close>. The check of the download task clears the flag in
  the corresponding branch.
\<close>

theorem Kraken_check_true_with_rejected_content:
  "KrakenLikeCommand_init [Str ''page.jpg''] (Some ''kraken -i $ $out'') None ''xml''
       ''kraken-like'' True True = Inr content_checked_task \<and>
   fst (check validating_env content_checked_task broken_output_world) = Inr True \<and>
   priv_checked_files (snd (check validating_env content_checked_task broken_output_world))
     = [(Str ''page.jpg'', False)] \<and>
   requires_processing (snd (check validating_env content_checked_task broken_output_world))
     = [Str ''page.jpg'']"
  by (simp add: KrakenLikeCommand_init_def check_def Kraken_check_def validating_env_def
        content_checked_task_def broken_output_world_def plain_env_def Task_init_def
        Kraken_rename_def os_path_splitext_def rfind_def os_path_exists_def startswith_def
        requires_processing_def)

subsection \<open>Exit codes of the spawned command\<close>

text \<open>
  What the code does with exit code \<^verbatim>\<open>1\<close>, for any batch of paths. A tolerant task
  raises nothing and calls the work function on every item, spawning one command each; an
  item is left out of \<^verbatim>\<open>_output_files\<close> exactly when its command exited with \<^verbatim>\<open>1\<close>. A
  fail-fast task raises \<^verbatim>\<open>InterruptedError\<close> at the first such item and lists nothing
  after it; the pool, which was given the whole batch at once, may by then have run the
  work function on some of the items behind it.
\<close>

lemma work_tolerant:
  "\<exists>res w'. work E (Some template) fmt True (Str s) w = (Inr res, w') \<and>
             length (spawned w') = Suc (length (spawned w)) \<and>
             (res = None \<or> res = Some (Str s)) \<and>
             (res = None \<longleftrightarrow> fst (fst (popen E (command_line template
                 (fst (os_path_splitext s) @ ''.'' @ fmt) s) (files w))) = 1)"
  by (auto simp: work_def Kraken_rename_def print_def split: prod.splits)

lemma executor_map_tolerant:
  assumes "\<forall>x \<in> set xs. \<exists>s. x = Str s"
      and "executor_map ov (\<lambda>sample. sample) (work E (Some template) fmt True) xs w = (rs, err, w')"
  shows "err = None \<and> length rs = length xs \<and>
         length (spawned w') = length (spawned w) + length xs"
  using assms
proof (induction xs arbitrary: w rs err w')
  case Nil
  then show ?case by simp
next
  case (Cons x xs)
  from Cons.prems(1) obtain s where x: "x = Str s" by auto
  let ?w0 = "w\<lparr>worked := worked w @ [x]\<rparr>"
  from work_tolerant[of E template fmt s ?w0] obtain res w1 where
    wk: "work E (Some template) fmt True (Str s) ?w0 = (Inr res, w1)"
    and len: "length (spawned w1) = Suc (length (spawned w))"
    by auto
  obtain rs1 err1 w2 where
    m: "executor_map ov (\<lambda>sample. sample) (work E (Some template) fmt True) xs w1 = (rs1, err1, w2)"
    by (cases "executor_map ov (\<lambda>sample. sample) (work E (Some template) fmt True) xs w1") auto
  have rest: "\<forall>x \<in> set xs. \<exists>s. x = Str s" using Cons.prems(1) by simp
  from Cons.IH[OF rest m] have
    ih: "err1 = None" "length rs1 = length xs"
        "length (spawned w2) = length (spawned w1) + length xs" by simp_all
  from Cons.prems(2) wk m x have "rs = res # rs1" "err = err1" "w' = w2" by simp_all
  with ih len show ?case by simp
qed

lemma Kraken_process_tolerant:
  assumes "executor_ok t" and "command t = Some template" and "\<forall>x \<in> set xs. \<exists>s. x = Str s"
      and "Kraken_process E fmt True xs t w = (r, t', w')"
  shows "r = Inr RNone \<and> worked w' = worked w @ xs \<and>
         length (spawned w') = length (spawned w) + length xs"
proof -
  obtain rs err w1 where
    m: "executor_map (overrun E) (\<lambda>sample. sample) (work E (Some template) fmt True) xs w
          = (rs, err, w1)"
    by (cases "executor_map (overrun E) (\<lambda>sample. sample) (work E (Some template) fmt True) xs w")
       auto
  from executor_map_tolerant[OF assms(3) m] have
    e: "err = None" and s: "length (spawned w1) = length (spawned w) + length xs" by simp_all
  from executor_map_worked[OF work_worked m] e have wk: "worked w1 = worked w @ xs" by simp
  from assms(1,2,4) m e have "r = Inr RNone" "w' = w1"
    by (simp_all add: Kraken_process_def returns_def)
  with s wk show ?thesis by simp
qed

lemma Kraken_process_fail_fast:
  assumes "executor_ok t" and "command t = Some template"
      and "fst (fst (popen E (command_line template (fst (os_path_splitext s) @ ''.'' @ fmt) s)
                       (files w))) = 1"
      and "Kraken_process E fmt False (Str s # rest) t w = (r, t', w')"
  shows "r = Inl InterruptedError \<and> priv_output_files t' = priv_output_files t \<and>
         worked w' = worked w @ take (Suc (overrun E)) (Str s # rest)"
proof -
  let ?w0 = "w\<lparr>worked := worked w @ [Str s]\<rparr>"
  have "fst (work E (Some template) fmt False (Str s) ?w0) = Inl InterruptedError"
    using assms(3) by (auto simp: work_def Kraken_rename_def split: prod.splits)
  then obtain w1 where
    wk: "work E (Some template) fmt False (Str s) ?w0 = (Inl InterruptedError, w1)"
    by (cases "work E (Some template) fmt False (Str s) ?w0") auto
  have w1: "worked w1 = worked w @ [Str s]"
    using work_worked[of E "Some template" fmt False "Str s" ?w0] wk by simp
  from assms(1,2,4) wk have
    r: "r = Inl InterruptedError" "priv_output_files t' = priv_output_files t"
    and w': "w' = run_uncollected (\<lambda>sample. sample) (work E (Some template) fmt False)
                    (take (overrun E) rest) w1"
    by (auto simp: Kraken_process_def returns_def)
  have "worked w' = worked w1 @ take (overrun E) rest"
    unfolding w'
    using run_uncollected_worked[of "work E (Some template) fmt False" "\<lambda>sample. sample", OF work_worked]
    by simp
  with w1 r show ?thesis by simp
qed

text \<open>
  Claim C3 speaks of any nonzero exit code. The work function tests
  \<^verbatim>\<open>proc.returncode == 1\<close> only. With exit code \<^verbatim>\<open>2\<close> for the second of three items, which
  writes no output: in tolerant mode the item is listed among the outputs all the same,
  and in fail-fast mode nothing is raised.
\<close>

theorem exit_code_two_counts_as_success:
  "fst (process (exit_code_env 2) (batch_task True) empty_world) = Inr RNone \<and>
   priv_output_files (fst (snd (process (exit_code_env 2) (batch_task True) empty_world)))
     = [Str ''a.jpg'', Str ''b.jpg'', Str ''c.jpg''] \<and>
   output_files (exit_code_env 2)
       (fst (snd (process (exit_code_env 2) (batch_task True) empty_world)))
       (snd (snd (process (exit_code_env 2) (batch_task True) empty_world)))
     = Inr [OStr ''a.xml'', OStr ''b.xml'', OStr ''c.xml''] \<and>
   files (snd (snd (process (exit_code_env 2) (batch_task True) empty_world))) ''b.xml'' = None \<and>
   fst (process (exit_code_env 2) (batch_task False) empty_world) = Inr RNone \<and>
   spawned (snd (snd (process (exit_code_env 2) (batch_task False) empty_world)))
     = [''ocr a.jpg a.xml'', ''ocr b.jpg b.xml'', ''ocr c.jpg c.xml'']"
  by (simp add: kraken_eval exit_code_env_def batch_task_def)

text \<open>With exit code \<^verbatim>\<open>1\<close> the tolerant task drops the second item of the same batch and
  goes on to the third. The fail-fast task raises at the second item and lists nothing
  after it, while the pool still runs the command of the third (\<open>overrun\<close> is one
  here).\<close>

lemma exit_code_one_is_a_failure:
  "fst (process (exit_code_env 1) (batch_task True) empty_world) = Inr RNone \<and>
   priv_output_files (fst (snd (process (exit_code_env 1) (batch_task True) empty_world)))
     = [Str ''a.jpg'', Str ''c.jpg''] \<and>
   fst (process (exit_code_env 1) (batch_task False) empty_world) = Inl InterruptedError \<and>
   priv_output_files (fst (snd (process (exit_code_env 1) (batch_task False) empty_world)))
     = [Str ''a.jpg''] \<and>
   spawned (snd (snd (process (exit_code_env 1) (batch_task False) empty_world)))
     = [''ocr a.jpg a.xml'', ''ocr b.jpg b.xml'', ''ocr c.jpg c.xml'']"
  by (simp add: kraken_eval exit_code_env_def batch_task_def)

subsection \<open>Interrupted downloads\<close>

text \<open>
  What the handler does, in the terms of the code: it removes the target of every input
  of the batch whose URL is not among the collected results, and nothing else.
\<close>

lemma remove_partial_removes:
  assumes "\<forall>inp \<in> set inputs. \<exists>url directory tgt. inp = Pair url directory \<and> rename_download inp = Inr tgt"
  shows "remove_partial inputs done fs =
           (None, \<lambda>p. if p \<in> partial_targets inputs done then None else fs p)"
  using assms
proof (induction inputs arbitrary: fs)
  case Nil
  show ?case by (simp add: partial_targets_def)
next
  case (Cons inp inputs)
  from Cons.prems obtain url directory tgt where
    p: "inp = Pair url directory" and r: "rename_download (Pair url directory) = Inr tgt"
    by auto
  have rest: "\<forall>inp \<in> set inputs. \<exists>url directory tgt. inp = Pair url directory \<and> rename_download inp = Inr tgt"
    using Cons.prems by simp
  note IH = Cons.IH[OF rest]
  show ?case
  proof (cases "Str url \<in> set done")
    case True
    then have "partial_targets (inp # inputs) done = partial_targets inputs done"
      by (auto simp: partial_targets_def p)
    with True p IH show ?thesis by simp
  next
    case False
    then have T: "partial_targets (inp # inputs) done = insert tgt (partial_targets inputs done)"
      using r by (auto simp: partial_targets_def p)
    show ?thesis
      using False p r IH T by (auto simp: os_path_exists_def fun_eq_iff)
  qed
qed

lemma Image_interrupted_removes:
  assumes jobs: "download_jobs inputs = Inr jobs"
      and run: "Image_interrupted E k inputs jobs t w = (r, t', w')"
      and d: "done = collect_done (fst (executor_map (overrun E) fst (download_job E)
                                         (take k (zip inputs jobs)) w))"
  shows "r = Inr (RBool True) \<and> priv_output_files t' = priv_output_files t @ done \<and>
         (\<forall>tgt \<in> partial_targets inputs done. files w' tgt = None)"
proof -
  obtain rs err w1 where
    m: "executor_map (overrun E) fst (download_job E) (take k (zip inputs jobs)) w = (rs, err, w1)"
    by (cases "executor_map (overrun E) fst (download_job E) (take k (zip inputs jobs)) w") auto
  with d have dn: "done = collect_done rs" by simp
  from download_jobs_inputs[OF jobs] have
    wf: "\<forall>inp \<in> set inputs. \<exists>url directory tgt. inp = Pair url directory \<and> rename_download inp = Inr tgt"
    by simp
  from run m dn remove_partial_removes[OF wf, of "done" "in_flight E (files w1)"]
  show ?thesis
    by (auto simp: Image_interrupted_def print_def)
qed



subsection \<open>Running process twice\<close>














end
